theory Spec2Isabelle
  imports
    Complex_Main
    "HOL-Library.Char_ord"
    "HOL-Library.List_Lexorder"
    "HOL-Library.Product_Lexorder"
begin

section \<open>Errors\<close>

text \<open>
  Every \<^verbatim>\<open>throw\<close> of the sources is a constructor. \<open>EmptyImage\<close>, \<open>SizeMismatch\<close>,
  \<open>DoubleMultiply\<close> and \<open>DoubleDivide\<close> are the \<^verbatim>\<open>runtime_error\<close>s of Image.cpp
  (\<open>SizeMismatch\<close> carries the name of the offending channel, as the message does);
  \<open>AssertionFailed\<close> is a failed \<^verbatim>\<open>TEV_ASSERT\<close>, which Common.h defines as a
  \<^verbatim>\<open>throw std::runtime_error\<close>. \<open>OutOfBounds\<close> is not an exception of the program: it marks
  an unchecked coefficient access outside the buffer of a channel, which is undefined
  behaviour in C++.
\<close>

datatype error =
    EmptyImage
  | SizeMismatch string
  | DoubleMultiply
  | DoubleDivide
  | AssertionFailed
  | OutOfBounds

section \<open>Channel (include/tev/Channel.h)\<close>

text \<open>
  A channel is a name and a row-major matrix of pixel values: \<open>cols\<close> and \<open>rows\<close> are the
  dimensions of the Eigen matrix, \<open>mData\<close> its coefficients in storage order. The pixel type
  is a type variable with a zero, a product and a quotient and no law about them
  (\<^verbatim>\<open>float\<close> in the source): nothing proved for every \<open>'a\<close> depends on how the arithmetic
  rounds. The test \<^verbatim>\<open>x != 0\<close> of the source is disequality from the zero of \<open>'a\<close>
  (for IEEE floats, whose two zeros compare equal, the zeros are one value of \<open>'a\<close>).
  The matrix of the source has \<open>cols * rows\<close> coefficients; the record does not enforce
  it, \<open>count\<close> is the number of coefficients the channel holds, and where a statement
  below needs channels of equal size it says so of their counts.
\<close>

record 'a Channel =
  mName :: string
  cols :: nat
  rows :: nat
  mData :: "'a list"

definition count :: "'a Channel \<Rightarrow> nat" where
  "count c = length (mData c)"

definition size_channel :: "'a Channel \<Rightarrow> int \<times> int" where
  "size_channel c = (int (cols c), int (rows c))"

text \<open>
  \<^verbatim>\<open>mData(index)\<close>: Eigen's coefficient access does not check its index; outside
  \<open>[0, size)\<close> the read is undefined behaviour, here \<open>Inl OutOfBounds\<close>.
\<close>

definition coeff :: "'a Channel \<Rightarrow> int \<Rightarrow> error + 'a" where
  "coeff c index =
     (if 0 \<le> index \<and> index < int (count c) then Inr (mData c ! nat index)
      else Inl OutOfBounds)"

text \<open>\<^verbatim>\<open>float eval(Eigen::DenseIndex index) const\<close>; \<^verbatim>\<open>DenseIndex\<close> is a signed type.\<close>

definition eval :: "'a::zero Channel \<Rightarrow> int \<Rightarrow> error + 'a" where
  "eval c index = (if index \<ge> int (count c) then Inr 0 else coeff c index)"

text \<open>\<^verbatim>\<open>float eval(Eigen::Vector2i index) const\<close>, the index given as \<open>(x, y)\<close>.\<close>

definition eval_xy :: "'a::zero Channel \<Rightarrow> int \<times> int \<Rightarrow> error + 'a" where
  "eval_xy c index =
     (if fst index < 0 \<or> fst index \<ge> int (cols c) \<or>
         snd index < 0 \<or> snd index \<ge> int (rows c)
      then Inr 0
      else coeff c (fst index + snd index * int (cols c)))"

text \<open>
  Modelled from the spec: \<^verbatim>\<open>ThreadPool::parallelForAsync\<close> (ThreadPool.h is not among the
  sources). It runs \<open>body\<close> once for every index of the half-open range, in chunks on the
  workers, and completes when all chunks have finished. The bodies of Channel.h touch
  coefficient \<open>i\<close> only at index \<open>i\<close>, so every schedule gives the result of the
  ascending loop written here.
\<close>

definition parallelFor :: "nat \<Rightarrow> (nat \<Rightarrow> 's \<Rightarrow> 's) \<Rightarrow> 's \<Rightarrow> 's" where
  "parallelFor n body s = foldl (\<lambda>s i. body i s) s [0..<n]"

text \<open>
  \<^verbatim>\<open>divideByAsync\<close> and \<^verbatim>\<open>multiplyWithAsync\<close>, awaited. The loop runs over
  \<^verbatim>\<open>other.count()\<close> and writes \<^verbatim>\<open>at(i)\<close> of the target unchecked: with a target shorter
  than \<open>other\<close> it leaves the buffer.
\<close>

definition divideBy :: "'a::{zero,inverse} Channel \<Rightarrow> 'a Channel \<Rightarrow> error + 'a Channel" where
  "divideBy target other =
     (if count other > count target then Inl OutOfBounds
      else Inr (target\<lparr>mData :=
        parallelFor (count other)
          (\<lambda>i xs. xs[i := (if mData other ! i \<noteq> 0 then xs ! i / mData other ! i else 0)])
          (mData target)\<rparr>))"

definition multiplyWith :: "'a::times Channel \<Rightarrow> 'a Channel \<Rightarrow> error + 'a Channel" where
  "multiplyWith target other =
     (if count other > count target then Inl OutOfBounds
      else Inr (target\<lparr>mData :=
        parallelFor (count other)
          (\<lambda>i xs. xs[i := xs ! i * mData other ! i])
          (mData target)\<rparr>))"

section \<open>Strings (include/tev/Common.h, Channel.cpp)\<close>

text \<open>The template \<^verbatim>\<open>join\<close> of Common.h: the delimiter goes before every component but the first.\<close>

fun join :: "string list \<Rightarrow> string \<Rightarrow> string" where
  "join [] delim = []"
| "join [c] delim = c"
| "join (c # cs) delim = c @ delim @ join cs delim"

text \<open>
  Modelled from the spec: \<^verbatim>\<open>Channel::head\<close> and \<^verbatim>\<open>Channel::tail\<close> (Channel.cpp is not
  among the sources). A channel name is dot-delimited, \<open>layer.leaf\<close>: the head is the
  dot-prefix (\<open>foo.R\<close> gives \<open>foo\<close>, a name with no dot gives the empty name of the root
  layer), the tail is the leaf. With several dots the split is taken at the last one,
  which is how \<open>channelsInLayer\<close> below assigns names to layers.
\<close>

definition tail :: "string \<Rightarrow> string" where
  "tail fullChannel = rev (takeWhile (\<lambda>c. c \<noteq> CHR ''.'') (rev fullChannel))"

definition head :: "string \<Rightarrow> string" where
  "head fullChannel =
     (if CHR ''.'' \<in> set fullChannel
      then rev (tl (dropWhile (\<lambda>c. c \<noteq> CHR ''.'') (rev fullChannel)))
      else [])"

text \<open>
  \<^verbatim>\<open>bool matchesFuzzy(string text, string filter, size_t* matchedPartId)\<close> is declared in
  Common.h and defined elsewhere. It is a parameter \<open>mf\<close> of everything that calls it:
  \<open>mf text filter = Some r\<close> when the text matches, \<open>r\<close> being what the call stores in
  \<^verbatim>\<open>*matchedPartId\<close>, and \<open>None\<close> when it does not.
\<close>

type_synonym matcher = "string \<Rightarrow> string \<Rightarrow> nat option"

section \<open>ImageData (src/Image.cpp)\<close>

text \<open>
  Modelled from the spec: the rectangle type of the data and display windows (its header
  is not among the sources). Integer corners with an exclusive upper bound, valid iff the
  maximum is greater than the minimum on both axes, size = max - min. Assigning a channel
  size to a window gives the window of that size at the origin. Coordinates are
  mathematical integers: the 32-bit range plays no part in what follows.
\<close>

record Box2i =
  box_min :: "int \<times> int"
  box_max :: "int \<times> int"

definition isValid :: "Box2i \<Rightarrow> bool" where
  "isValid b \<longleftrightarrow> fst (box_max b) > fst (box_min b) \<and> snd (box_max b) > snd (box_min b)"

definition size_box :: "Box2i \<Rightarrow> int \<times> int" where
  "size_box b = (fst (box_max b) - fst (box_min b), snd (box_max b) - snd (box_min b))"

definition box_of_size :: "int \<times> int \<Rightarrow> Box2i" where
  "box_of_size sz = \<lparr>box_min = (0, 0), box_max = sz\<rparr>"

record 'a ImageData =
  channels :: "'a Channel list"
  layers :: "string list"
  hasPremultipliedAlpha :: bool
  dataWindow :: Box2i
  displayWindow :: Box2i
  partName :: string

text \<open>
  A member function that mutates the object and may throw returns the exception raised,
  if any, together with the object as the call leaves it: what was assigned before a
  \<^verbatim>\<open>throw\<close> stays assigned.
\<close>

type_synonym 'a outcome = "error option \<times> 'a ImageData"

text \<open>
  Modelled from the spec: \<^verbatim>\<open>ImageData::channel\<close>, \<^verbatim>\<open>mutableChannel\<close> and
  \<^verbatim>\<open>hasChannel\<close> (Image.h is not among the sources): the lookup of a channel by its
  name. The model returns the position of the first channel of that name; the pointer the
  source holds is that position, since no channel is added or removed while it is held.
\<close>

fun channelIndex :: "'a Channel list \<Rightarrow> string \<Rightarrow> nat option" where
  "channelIndex [] channelName = None"
| "channelIndex (c # cs) channelName =
     (if mName c = channelName then Some 0 else map_option Suc (channelIndex cs channelName))"

definition hasChannel :: "'a ImageData \<Rightarrow> string \<Rightarrow> bool" where
  "hasChannel d channelName \<longleftrightarrow> channelIndex (channels d) channelName \<noteq> None"

text \<open>\<^verbatim>\<open>starts_with\<close> of \<^verbatim>\<open>std::string\<close>.\<close>

definition starts_with :: "string \<Rightarrow> string \<Rightarrow> bool" where
  "starts_with s p \<longleftrightarrow> take (length p) s = p"

definition channelsInLayer :: "'a ImageData \<Rightarrow> string \<Rightarrow> string list" where
  "channelsInLayer d layerName =
     (if layerName = []
      then map mName (filter (\<lambda>c. CHR ''.'' \<notin> set (mName c)) (channels d))
      else map mName (filter (\<lambda>c.
             starts_with (mName c) layerName \<and> length (mName c) > length layerName \<and>
             CHR ''.'' \<notin> set (drop (length layerName + 1) (mName c)))
           (channels d)))"

definition layerPrefix :: "string \<Rightarrow> string" where
  "layerPrefix layer = (if layer = [] then [] else layer @ ''.'')"

definition alphaChannelName :: "string \<Rightarrow> string" where
  "alphaChannelName layer = layerPrefix layer @ ''A''"

text \<open>
  \<^verbatim>\<open>alphaOperation\<close> calls \<open>func(target, alpha)\<close> for every layer that has an alpha channel
  and every other channel of that layer, in this order. The model returns the calls, as
  pairs (position of the target, position of the alpha channel). The second lookup cannot
  fail, the name being the name of a channel.
\<close>

definition alphaOperation :: "'a ImageData \<Rightarrow> (nat \<times> nat) list" where
  "alphaOperation d =
     concat (map (\<lambda>layer.
       case channelIndex (channels d) (alphaChannelName layer) of
         None \<Rightarrow> []
       | Some a \<Rightarrow>
           concat (map (\<lambda>channelName.
             if channelName \<noteq> alphaChannelName layer
             then (case channelIndex (channels d) channelName of
                     None \<Rightarrow> [] | Some t \<Rightarrow> [(t, a)])
             else [])
           (channelsInLayer d layer)))
     (layers d))"

text \<open>
  \<^verbatim>\<open>multiplyAlpha\<close> and \<^verbatim>\<open>unmultiplyAlpha\<close> turn every call of \<open>alphaOperation\<close> into a
  task and await the tasks. The model runs the tasks one after the other in the order of
  their creation; the pool may run them concurrently, with the same result whenever no
  channel written by one task is read or written by another.
\<close>

fun runTasks ::
  "('a Channel \<Rightarrow> 'a Channel \<Rightarrow> error + 'a Channel) \<Rightarrow> (nat \<times> nat) list \<Rightarrow>
   'a Channel list \<Rightarrow> error option \<times> 'a Channel list" where
  "runTasks opn [] cs = (None, cs)"
| "runTasks opn ((t, a) # tasks) cs =
     (case opn (cs ! t) (cs ! a) of
        Inl e \<Rightarrow> (Some e, cs)
      | Inr c \<Rightarrow> runTasks opn tasks (cs[t := c]))"

definition multiplyAlpha :: "'a::times ImageData \<Rightarrow> 'a outcome" where
  "multiplyAlpha d =
     (if hasPremultipliedAlpha d then (Some DoubleMultiply, d)
      else case runTasks multiplyWith (alphaOperation d) (channels d) of
             (Some e, cs) \<Rightarrow> (Some e, d\<lparr>channels := cs\<rparr>)
           | (None, cs) \<Rightarrow> (None, d\<lparr>channels := cs, hasPremultipliedAlpha := True\<rparr>))"

definition unmultiplyAlpha :: "'a::{zero,inverse} ImageData \<Rightarrow> 'a outcome" where
  "unmultiplyAlpha d =
     (if \<not> hasPremultipliedAlpha d then (Some DoubleDivide, d)
      else case runTasks divideBy (alphaOperation d) (channels d) of
             (Some e, cs) \<Rightarrow> (Some e, d\<lparr>channels := cs\<rparr>)
           | (None, cs) \<Rightarrow> (None, d\<lparr>channels := cs, hasPremultipliedAlpha := False\<rparr>))"

text \<open>
  The selector step of \<^verbatim>\<open>ensureValid\<close>: the pairs (matchId, i) of the matching channels,
  sorted as \<^verbatim>\<open>std::sort\<close> sorts pairs (by first component, then by second); the pairs are
  distinct, so the sorted sequence is unique.
\<close>

definition selectorMatches :: "matcher \<Rightarrow> string \<Rightarrow> 'a Channel list \<Rightarrow> (nat \<times> nat) list" where
  "selectorMatches mf channelSelector cs =
     List.map_filter (\<lambda>i. map_option (\<lambda>matchId. (matchId, i)) (mf (mName (cs ! i)) channelSelector))
       [0..<length cs]"

definition selectChannels :: "matcher \<Rightarrow> string \<Rightarrow> 'a Channel list \<Rightarrow> 'a Channel list" where
  "selectChannels mf channelSelector cs =
     map (\<lambda>match. cs ! snd match) (sort (selectorMatches mf channelSelector cs))"

text \<open>
  The layer names of \<^verbatim>\<open>ensureValid\<close>: the heads of the channel names go through a
  \<^verbatim>\<open>std::set\<close>, which yields them once each, in ascending order.
\<close>

definition layerNames :: "'a Channel list \<Rightarrow> string list" where
  "layerNames cs = sort (remdups (map (\<lambda>c. head (mName c)) cs))"

text \<open>
  \<^verbatim>\<open>ensureValid\<close>, awaited. Its \<^verbatim>\<open>size()\<close> is the size of the data window
  (\<^verbatim>\<open>ImageData::size\<close> is declared in Image.h, which is not among the sources; the
  specification has every channel's size compared with the size of the data window), and
  the error of the size check names the first channel that fails it.
\<close>

definition ensureValid :: "matcher \<Rightarrow> string \<Rightarrow> 'a::times ImageData \<Rightarrow> 'a outcome" where
  "ensureValid mf channelSelector d =
     (if channels d = [] then (Some EmptyImage, d)
      else
        let d1 = (if \<not> isValid (dataWindow d)
                  then d\<lparr>dataWindow := box_of_size (size_channel (hd (channels d)))\<rparr> else d);
            d2 = (if \<not> isValid (displayWindow d1)
                  then d1\<lparr>displayWindow := box_of_size (size_channel (hd (channels d1)))\<rparr> else d1)
        in case find (\<lambda>c. size_channel c \<noteq> size_box (dataWindow d2)) (channels d2) of
             Some c \<Rightarrow> (Some (SizeMismatch (mName c)), d2)
           | None \<Rightarrow>
               let d3 = (if channelSelector \<noteq> []
                         then d2\<lparr>channels := selectChannels mf channelSelector (channels d2)\<rparr>
                         else d2);
                   d4 = (if layers d3 = [] then d3\<lparr>layers := layerNames (channels d3)\<rparr> else d3);
                   r = (if \<not> hasPremultipliedAlpha d4 then multiplyAlpha d4 else (None, d4))
               in case r of
                    (Some e, d5) \<Rightarrow> (Some e, d5)
                  | (None, d5) \<Rightarrow>
                      if hasPremultipliedAlpha d5 then (None, d5) else (Some AssertionFailed, d5))"

section \<open>Channel groups (Image::getGroupedChannels in src/Image.cpp)\<close>

record ChannelGroup =
  group_name :: string
  group_channels :: "string list"

text \<open>The table of canonical tuples at the head of \<^verbatim>\<open>getGroupedChannels\<close>.\<close>

definition groups :: "string list list" where
  "groups =
     [[''R'', ''G'', ''B''],
      [''r'', ''g'', ''b''],
      [''X'', ''Y'', ''Z''],
      [''x'', ''y'', ''z''],
      [''U'', ''V''],
      [''u'', ''v''],
      [''Z''],
      [''z'']]"

text \<open>
  The lambda \<^verbatim>\<open>createChannelGroup\<close>. \<^verbatim>\<open>std::unique\<close> with \<^verbatim>\<open>erase\<close> removes every element
  equal to its predecessor, which is \<open>remdups_adj\<close>; it runs on the full names, before the
  tails are taken.
\<close>

definition createChannelGroup :: "string \<Rightarrow> string list \<Rightarrow> error + ChannelGroup" where
  "createChannelGroup layer chans =
     (if chans = [] then Inl AssertionFailed
      else
        let channelTails = map tail (remdups_adj chans);
            channelsString = join channelTails '','';
            name = (if layer = [] then channelsString
                    else if length channelTails = 1 then layer @ ''.'' @ channelsString
                    else layer @ ''.('' @ channelsString @ '')'')
        in Inr \<lparr>group_name = name, group_channels = chans\<rparr>)"

text \<open>
  The inner loop over the members of one tuple: a member present in the pool goes to the
  group and leaves the pool (\<^verbatim>\<open>erase\<close> of the first occurrence).
\<close>

fun collectGroup :: "string \<Rightarrow> string list \<Rightarrow> string list \<Rightarrow> string list \<Rightarrow> string list \<times> string list" where
  "collectGroup prefix [] groupChannels allChannels = (groupChannels, allChannels)"
| "collectGroup prefix (channel # rest) groupChannels allChannels =
     (let name = prefix @ channel in
      if name \<in> set allChannels
      then collectGroup prefix rest (groupChannels @ [name]) (remove1 name allChannels)
      else collectGroup prefix rest groupChannels allChannels)"

text \<open>The loop over the tuples; it returns the pool that is left and the groups made.\<close>

fun groupLoop ::
  "string \<Rightarrow> bool \<Rightarrow> string list list \<Rightarrow> string list \<Rightarrow> ChannelGroup list \<Rightarrow>
   error + (string list \<times> ChannelGroup list)" where
  "groupLoop layerName hasAlpha [] allChannels result = Inr (allChannels, result)"
| "groupLoop layerName hasAlpha (grp # rest) allChannels result =
     (case collectGroup (layerPrefix layerName) grp [] allChannels of
        (groupChannels, allChannels') \<Rightarrow>
          if groupChannels \<noteq> [] then
            let gc1 = (if length groupChannels = 1
                       then groupChannels @ [hd groupChannels] @ [hd groupChannels]
                       else groupChannels);
                gc2 = (if hasAlpha then gc1 @ [alphaChannelName layerName] else gc1)
            in case createChannelGroup layerName gc2 of
                 Inl e \<Rightarrow> Inl e
               | Inr g \<Rightarrow> groupLoop layerName hasAlpha rest allChannels' (result @ [g])
          else groupLoop layerName hasAlpha rest allChannels' result)"

text \<open>The loop over the channels that no tuple has taken.\<close>

fun remainingLoop ::
  "string \<Rightarrow> bool \<Rightarrow> string list \<Rightarrow> ChannelGroup list \<Rightarrow> error + ChannelGroup list" where
  "remainingLoop layerName hasAlpha [] result = Inr result"
| "remainingLoop layerName hasAlpha (name # rest) result =
     (case createChannelGroup layerName
             (if hasAlpha then [name, name, name, alphaChannelName layerName]
              else [name, name, name]) of
        Inl e \<Rightarrow> Inl e
      | Inr g \<Rightarrow> remainingLoop layerName hasAlpha rest (result @ [g]))"

text \<open>
  \<^verbatim>\<open>getGroupedChannels\<close> is a member of \<^verbatim>\<open>Image\<close> and reads the image's \<^verbatim>\<open>mData\<close>, the
  first argument here.
\<close>

definition getGroupedChannels :: "'a ImageData \<Rightarrow> string \<Rightarrow> error + ChannelGroup list" where
  "getGroupedChannels imageData layerName =
     (let alpha = alphaChannelName layerName;
          allChannels0 = channelsInLayer imageData layerName;
          hasAlpha = (alpha \<in> set allChannels0);
          allChannels = (if hasAlpha then remove1 alpha allChannels0 else allChannels0)
      in case groupLoop layerName hasAlpha groups allChannels [] of
           Inl e \<Rightarrow> Inl e
         | Inr (allChannels', result) \<Rightarrow>
             (case remainingLoop layerName hasAlpha allChannels' result of
                Inl e \<Rightarrow> Inl e
              | Inr result' \<Rightarrow>
                  (case (if hasAlpha \<and> result' = []
                         then map_sum id (\<lambda>g. result' @ [g])
                                (createChannelGroup layerName [alpha, alpha, alpha])
                         else Inr result') of
                     Inl e \<Rightarrow> Inl e
                   | Inr result'' \<Rightarrow>
                       if result'' = [] then Inl AssertionFailed else Inr result'')))"

text \<open>
  The display name of a group as the specification words it, to be compared with the name
  \<open>createChannelGroup\<close> builds: the de-duplicated tails joined by commas, in parentheses
  when more than one tail remains and bare otherwise, prefixed by the layer and a dot when
  the layer is not the root.
\<close>

definition specGroupName :: "string \<Rightarrow> string list \<Rightarrow> string" where
  "specGroupName layer chans =
     (let tails = remdups (map tail chans);
          joined = join tails '','';
          body = (if length tails > 1 then ''('' @ joined @ '')'' else joined)
      in if layer = [] then body else layer @ ''.'' @ body)"

section \<open>BackgroundImagesLoader (src/Image.cpp)\<close>

text \<open>
  Modelled from the spec: the members of \<^verbatim>\<open>BackgroundImagesLoader\<close> and the record it
  queues (Image.h is not among the sources). A load record is a sequence id, the
  select-on-arrival flag and the decoded images, empty on failure. The loader holds the
  counter of sequence ids given out, the counter of the next id to publish, the buffer of
  completed and unpublished records (a priority queue whose top is the record of least id;
  here the list of its records in ascending order of id) and the FIFO of published
  records. The counters are natural numbers: the \<^verbatim>\<open>int\<close> of the source does not wrap
  before \<open>2^31\<close> requests.
\<close>

record 'i ImageAddition =
  loadId :: nat
  shallSelect :: bool
  images :: "'i list"

record 'i BackgroundImagesLoader =
  mUnsortedLoadCounter :: nat
  mLoadCounter :: nat
  mPendingLoadedImages :: "'i ImageAddition list"
  mLoadedImages :: "'i ImageAddition list"



text \<open>The first critical section of the task: \<^verbatim>\<open>mPendingLoadedImages.push\<close>.\<close>

definition pushPending :: "'i ImageAddition \<Rightarrow> 'i BackgroundImagesLoader \<Rightarrow> 'i BackgroundImagesLoader" where
  "pushPending r s = s\<lparr>mPendingLoadedImages := insort_key loadId r (mPendingLoadedImages s)\<rparr>"

text \<open>
  \<^verbatim>\<open>publishSortedLoads\<close>, the second critical section, with the flag \<open>pushed\<close> threaded
  through the loop.
\<close>

function publishLoop :: "bool \<Rightarrow> 'i BackgroundImagesLoader \<Rightarrow> bool \<times> 'i BackgroundImagesLoader" where
  "publishLoop pushed s =
     (if mPendingLoadedImages s \<noteq> [] \<and> loadId (hd (mPendingLoadedImages s)) = mLoadCounter s
      then publishLoop True
             (s\<lparr>mLoadCounter := mLoadCounter s + 1,
                mLoadedImages :=
                  (if images (hd (mPendingLoadedImages s)) \<noteq> []
                   then mLoadedImages s @ [hd (mPendingLoadedImages s)]
                   else mLoadedImages s),
                mPendingLoadedImages := tl (mPendingLoadedImages s)\<rparr>)
      else (pushed, s))"
  by pat_completeness auto
termination
  by (relation "measure (\<lambda>(pushed, s). length (mPendingLoadedImages s))") auto

declare publishLoop.simps [simp del]

definition publishSortedLoads :: "'i BackgroundImagesLoader \<Rightarrow> bool \<times> 'i BackgroundImagesLoader" where
  "publishSortedLoads s = publishLoop False s"

text \<open>
  What the tasks do to the loader, as a sequence of atomic steps: both critical sections
  hold \<^verbatim>\<open>mPendingLoadedImagesMutex\<close>, and the tasks of different requests interleave
  between them in any way.
\<close>

datatype 'i event = Push "'i ImageAddition" | Publish

fun step :: "'i event \<Rightarrow> 'i BackgroundImagesLoader \<Rightarrow> 'i BackgroundImagesLoader" where
  "step (Push r) s = pushPending r s"
| "step Publish s = snd (publishSortedLoads s)"

definition run :: "'i event list \<Rightarrow> 'i BackgroundImagesLoader \<Rightarrow> 'i BackgroundImagesLoader" where
  "run evs s = foldl (\<lambda>s e. step e s) s evs"




section \<open>Example inputs\<close>

text \<open>
  The inputs of the examples below: a channel of a given width and height filled with one
  value, and an image that is not premultiplied and has no valid window yet.
\<close>

definition constChannel :: "string \<Rightarrow> nat \<Rightarrow> nat \<Rightarrow> 'a \<Rightarrow> 'a Channel" where
  "constChannel channelName w h v =
     \<lparr>mName = channelName, cols = w, rows = h, mData = replicate (w * h) v\<rparr>"

definition rawImage :: "'a Channel list \<Rightarrow> string list \<Rightarrow> 'a ImageData" where
  "rawImage cs ls =
     \<lparr>channels = cs, layers = ls, hasPremultipliedAlpha = False,
      dataWindow = \<lparr>box_min = (0, 0), box_max = (0, 0)\<rparr>,
      displayWindow = \<lparr>box_min = (0, 0), box_max = (0, 0)\<rparr>,
      partName = []\<rparr>"

text \<open>
  A matcher for the examples (the program's own \<^verbatim>\<open>matchesFuzzy\<close> is not among the
  sources): the selector is read as a sequence of one-letter words, a channel name matches
  when its tail is one of them, and the rank is the position of the first such word.
\<close>

fun letterMatcher :: matcher where
  "letterMatcher text [] = None"
| "letterMatcher text (c # cs) =
     (if tail text = [c] then Some 0 else map_option Suc (letterMatcher text cs))"

definition selectorExample :: "real ImageData" where
  "selectorExample =
     rawImage [constChannel ''a.R'' 1 1 1, constChannel ''a.G'' 1 1 2,
               constChannel ''a.B'' 1 1 3, constChannel ''b.R'' 1 1 4] []"

definition selectorExampleValid :: "real ImageData" where
  "selectorExampleValid =
     \<lparr>channels = [constChannel ''a.G'' 1 1 2, constChannel ''a.R'' 1 1 1, constChannel ''b.R'' 1 1 4],
      layers = [''a'', ''b''], hasPremultipliedAlpha = True,
      dataWindow = \<lparr>box_min = (0, 0), box_max = (1, 1)\<rparr>,
      displayWindow = \<lparr>box_min = (0, 0), box_max = (1, 1)\<rparr>, partName = []\<rparr>"

section \<open>Properties of Channel\<close>

lemma parallelFor_length:
  "length (parallelFor n (\<lambda>i xs. xs[i := f i (xs ! i)]) xs) = length xs"
  unfolding parallelFor_def by (induction n) simp_all

lemma parallelFor_nth:
  "j < length xs \<Longrightarrow>
   parallelFor n (\<lambda>i xs. xs[i := f i (xs ! i)]) xs ! j = (if j < n then f j (xs ! j) else xs ! j)"
proof (induction n)
  case 0
  then show ?case by (simp add: parallelFor_def)
next
  case (Suc n)
  let ?ys = "parallelFor n (\<lambda>i xs. xs[i := f i (xs ! i)]) xs"
  have step: "parallelFor (Suc n) (\<lambda>i xs. xs[i := f i (xs ! i)]) xs = ?ys[n := f n (?ys ! n)]"
    by (simp add: parallelFor_def)
  have len: "length ?ys = length xs" by (rule parallelFor_length)
  show ?case
  proof (cases "j = n")
    case True
    with Suc len show ?thesis by (simp add: step)
  next
    case False
    with Suc len show ?thesis by (simp add: step)
  qed
qed

lemma eval_past_end: "index \<ge> int (count c) \<Longrightarrow> eval c index = Inr 0"
  by (simp add: eval_def)

lemma eval_xy_outside:
  "x < 0 \<or> x \<ge> int (cols c) \<or> y < 0 \<or> y \<ge> int (rows c) \<Longrightarrow> eval_xy c (x, y) = Inr 0"
  by (auto simp add: eval_xy_def)

text \<open>
  C8. An out-of-bounds point read returns 0 and never fails, negative linear indices
  included. The two-dimensional overload and a linear index past the end do return 0
  (\<open>eval_xy_outside\<close>, \<open>eval_past_end\<close>). The linear overload compares its index with the
  size only: a negative index passes the test and reads \<^verbatim>\<open>mData(index)\<close> before the
  buffer, for every channel.
\<close>

theorem eval_negative_index_out_of_bounds:
  "eval c (- 1) = Inl OutOfBounds"
  by (simp add: eval_def coeff_def)

text \<open>
  C4. For channels of equal size, \<open>divideBy\<close> is not an error path, keeps name and
  dimensions, and leaves at every linear index \<open>i\<close> the value \<open>0\<close> when the divisor is \<open>0\<close>
  there and the quotient otherwise.
\<close>

theorem divideBy_pointwise:
  assumes "count a = count b" and "i < count a"
  shows "\<exists>r. divideBy a b = Inr r \<and> count r = count a \<and> mName r = mName a \<and>
           cols r = cols a \<and> rows r = rows a \<and>
           mData r ! i = (if mData b ! i = 0 then 0 else mData a ! i / mData b ! i)"
  using assms
  by (simp add: divideBy_def count_def
        parallelFor_length [where f = "\<lambda>i x. if mData b ! i \<noteq> 0 then x / mData b ! i else 0"]
        parallelFor_nth [where f = "\<lambda>i x. if mData b ! i \<noteq> 0 then x / mData b ! i else 0"])

theorem divideBy_pointwise_witness:
  "\<exists>r. divideBy \<lparr>mName = ''R'', cols = 2, rows = 1, mData = [6, 5 :: real]\<rparr>
                 \<lparr>mName = ''A'', cols = 2, rows = 1, mData = [0, 2 :: real]\<rparr> = Inr r \<and>
       mData r ! 0 = 0 \<and> mData r ! 1 = 5 / 2"
proof -
  let ?a = "\<lparr>mName = ''R'', cols = 2, rows = 1, mData = [6, 5 :: real]\<rparr>"
  let ?b = "\<lparr>mName = ''A'', cols = 2, rows = 1, mData = [0, 2 :: real]\<rparr>"
  have eq: "count ?a = count ?b" by (simp add: count_def)
  have i0: "0 < count ?a" and i1: "1 < count ?a" by (simp_all add: count_def)
  from divideBy_pointwise [OF eq i0] divideBy_pointwise [OF eq i1]
  show ?thesis by auto
qed

section \<open>Properties of multiplyAlpha and unmultiplyAlpha\<close>

lemma runTasks_error:
  assumes "\<And>x y e. opn x y = Inl e \<Longrightarrow> e = OutOfBounds"
  shows "runTasks opn ts cs = (Some e, cs') \<Longrightarrow> e = OutOfBounds"
proof (induction ts arbitrary: cs)
  case Nil
  then show ?case by simp
next
  case (Cons task ts)
  obtain t a where task: "task = (t, a)" by (cases task)
  show ?case
  proof (cases "opn (cs ! t) (cs ! a)")
    case (Inl err)
    with Cons.prems task assms [OF Inl] show ?thesis by simp
  next
    case (Inr c)
    with Cons.prems task have "runTasks opn ts (cs[t := c]) = (Some e, cs')" by simp
    then show ?thesis by (rule Cons.IH)
  qed
qed

lemma multiplyWith_error: "multiplyWith x y = Inl e \<Longrightarrow> e = OutOfBounds"
  by (simp add: multiplyWith_def split: if_splits)

lemma divideBy_error: "divideBy x y = Inl e \<Longrightarrow> e = OutOfBounds"
  by (simp add: divideBy_def split: if_splits)

lemmas eval_alpha =
  multiplyAlpha_def unmultiplyAlpha_def alphaOperation_def channelsInLayer_def
  alphaChannelName_def layerPrefix_def starts_with_def multiplyWith_def divideBy_def
  count_def parallelFor_def rawImage_def constChannel_def

text \<open>
  C6. When a call of \<open>multiplyAlpha\<close> has completed, or has itself failed with the
  double-multiply error, the next call of \<open>multiplyAlpha\<close> fails with the double-multiply
  error and leaves the object, its channel data included, exactly as it found it; the same
  holds of \<open>unmultiplyAlpha\<close> and the double-divide error.
\<close>

theorem alpha_twice_fails:
  "(fst (multiplyAlpha d) \<in> {None, Some DoubleMultiply} \<longrightarrow>
      multiplyAlpha (snd (multiplyAlpha d)) = (Some DoubleMultiply, snd (multiplyAlpha d))) \<and>
   (fst (unmultiplyAlpha e) \<in> {None, Some DoubleDivide} \<longrightarrow>
      unmultiplyAlpha (snd (unmultiplyAlpha e)) = (Some DoubleDivide, snd (unmultiplyAlpha e)))"
proof (intro conjI impI)
  assume ok: "fst (multiplyAlpha d) \<in> {None, Some DoubleMultiply}"
  show "multiplyAlpha (snd (multiplyAlpha d)) = (Some DoubleMultiply, snd (multiplyAlpha d))"
  proof (cases "hasPremultipliedAlpha d")
    case True
    then show ?thesis by (simp add: multiplyAlpha_def)
  next
    case False
    obtain r cs where run: "runTasks multiplyWith (alphaOperation d) (channels d) = (r, cs)"
      by (cases "runTasks multiplyWith (alphaOperation d) (channels d)")
    show ?thesis
    proof (cases r)
      case None
      with False run show ?thesis by (simp add: multiplyAlpha_def)
    next
      case (Some err)
      with False run have "fst (multiplyAlpha d) = Some err" by (simp add: multiplyAlpha_def)
      moreover from run Some have "err = OutOfBounds"
        using runTasks_error [of multiplyWith] multiplyWith_error by blast
      ultimately show ?thesis using ok by simp
    qed
  qed
next
  assume ok: "fst (unmultiplyAlpha e) \<in> {None, Some DoubleDivide}"
  show "unmultiplyAlpha (snd (unmultiplyAlpha e)) = (Some DoubleDivide, snd (unmultiplyAlpha e))"
  proof (cases "hasPremultipliedAlpha e")
    case False
    then show ?thesis by (simp add: unmultiplyAlpha_def)
  next
    case True
    obtain r cs where run: "runTasks divideBy (alphaOperation e) (channels e) = (r, cs)"
      by (cases "runTasks divideBy (alphaOperation e) (channels e)")
    show ?thesis
    proof (cases r)
      case None
      with True run show ?thesis by (simp add: unmultiplyAlpha_def)
    next
      case (Some err)
      with True run have "fst (unmultiplyAlpha e) = Some err" by (simp add: unmultiplyAlpha_def)
      moreover from run Some have "err = OutOfBounds"
        using runTasks_error [of divideBy] divideBy_error by blast
      ultimately show ?thesis using ok by simp
    qed
  qed
qed

theorem alpha_twice_fails_witness:
  "fst (multiplyAlpha (rawImage [constChannel ''R'' 1 1 (3::real), constChannel ''A'' 1 1 2] [''''])) = None \<and>
   multiplyAlpha (snd (multiplyAlpha (rawImage [constChannel ''R'' 1 1 (3::real), constChannel ''A'' 1 1 2] ['''']))) =
     (Some DoubleMultiply,
      (rawImage [constChannel ''R'' 1 1 6, constChannel ''A'' 1 1 2] [''''])\<lparr>hasPremultipliedAlpha := True\<rparr>) \<and>
   fst (unmultiplyAlpha ((rawImage [constChannel ''R'' 1 1 (6::real), constChannel ''A'' 1 1 2] [''''])
          \<lparr>hasPremultipliedAlpha := True\<rparr>)) = None \<and>
   unmultiplyAlpha (snd (unmultiplyAlpha ((rawImage [constChannel ''R'' 1 1 (6::real), constChannel ''A'' 1 1 2] [''''])
          \<lparr>hasPremultipliedAlpha := True\<rparr>))) =
     (Some DoubleDivide, rawImage [constChannel ''R'' 1 1 3, constChannel ''A'' 1 1 2] [''''])"
proof -
  let ?d = "rawImage [constChannel ''R'' 1 1 (3::real), constChannel ''A'' 1 1 2] ['''']"
  let ?e = "(rawImage [constChannel ''R'' 1 1 (6::real), constChannel ''A'' 1 1 2] [''''])
              \<lparr>hasPremultipliedAlpha := True\<rparr>"
  have m1: "fst (multiplyAlpha ?d) = None" by (simp add: eval_alpha)
  have m2: "snd (multiplyAlpha ?d) = ?e" by (simp add: eval_alpha)
  have u1: "fst (unmultiplyAlpha ?e) = None" by (simp add: eval_alpha)
  have u2: "snd (unmultiplyAlpha ?e) = rawImage [constChannel ''R'' 1 1 3, constChannel ''A'' 1 1 2] ['''']"
    by (simp add: eval_alpha)
  from alpha_twice_fails [of ?d ?e] m1 m2 u1 u2 show ?thesis by simp
qed

section \<open>Properties of ensureValid\<close>

lemma runTasks_shape:
  assumes "\<And>x y c. opn x y = Inr c \<Longrightarrow> mName c = mName x \<and> cols c = cols x \<and> rows c = rows x"
  shows "runTasks opn ts cs = (r, cs') \<Longrightarrow>
         map (\<lambda>c. (mName c, cols c, rows c)) cs' = map (\<lambda>c. (mName c, cols c, rows c)) cs"
proof (induction ts arbitrary: cs)
  case Nil
  then show ?case by simp
next
  case (Cons task ts)
  obtain t a where task: "task = (t, a)" by (cases task)
  show ?case
  proof (cases "opn (cs ! t) (cs ! a)")
    case (Inl err)
    with Cons.prems task show ?thesis by simp
  next
    case (Inr c)
    with Cons.prems task have "runTasks opn ts (cs[t := c]) = (r, cs')" by simp
    then have "map (\<lambda>c. (mName c, cols c, rows c)) cs' = map (\<lambda>c. (mName c, cols c, rows c)) (cs[t := c])"
      by (rule Cons.IH)
    also have "\<dots> = map (\<lambda>c. (mName c, cols c, rows c)) cs"
    proof (cases "t < length cs")
      case True
      with assms [OF Inr] show ?thesis by (simp add: map_update list_update_same_conv)
    next
      case False
      then have "cs[t := c] = cs" by (intro list_update_beyond) simp
      then show ?thesis by simp
    qed
    finally show ?thesis .
  qed
qed

lemma multiplyWith_shape:
  "multiplyWith x y = Inr c \<Longrightarrow> mName c = mName x \<and> cols c = cols x \<and> rows c = rows x"
  by (auto simp add: multiplyWith_def split: if_splits)

lemma divideBy_shape:
  "divideBy x y = Inr c \<Longrightarrow> mName c = mName x \<and> cols c = cols x \<and> rows c = rows x"
  by (auto simp add: divideBy_def split: if_splits)

lemma multiplyAlpha_shape:
  assumes "multiplyAlpha d = (r, d')"
  shows "map (\<lambda>c. (mName c, cols c, rows c)) (channels d') = map (\<lambda>c. (mName c, cols c, rows c)) (channels d)"
proof (cases "hasPremultipliedAlpha d")
  case True
  with assms show ?thesis by (simp add: multiplyAlpha_def)
next
  case False
  obtain r0 cs where run: "runTasks multiplyWith (alphaOperation d) (channels d) = (r0, cs)"
    by (cases "runTasks multiplyWith (alphaOperation d) (channels d)")
  from runTasks_shape [of multiplyWith, OF multiplyWith_shape run]
  have "map (\<lambda>c. (mName c, cols c, rows c)) cs = map (\<lambda>c. (mName c, cols c, rows c)) (channels d)" .
  moreover from assms False run have "channels d' = cs"
    by (cases r0) (auto simp add: multiplyAlpha_def)
  ultimately show ?thesis by simp
qed

lemma set_map_filter_conv:
  "set (List.map_filter f xs) = {y. \<exists>x\<in>set xs. f x = Some y}"
  by (induction xs) (auto split: option.splits)

lemma set_selectorMatches:
  "set (selectorMatches mf sel cs) = {(r, i). i < length cs \<and> mf (mName (cs ! i)) sel = Some r}"
  unfolding selectorMatches_def by (auto simp add: set_map_filter_conv)

lemma distinct_selectorMatches: "distinct (selectorMatches mf sel cs)"
proof -
  have "distinct (map snd (selectorMatches mf sel cs))"
  proof -
    have "map snd (selectorMatches mf sel cs) =
          filter (\<lambda>i. mf (mName (cs ! i)) sel \<noteq> None) [0..<length cs]"
      unfolding selectorMatches_def List.map_filter_def
      by (induction "[0..<length cs]") (auto simp add: comp_def intro!: map_idI)
    then show ?thesis by simp
  qed
  then show ?thesis by (rule distinct_map [THEN iffD1, THEN conjunct1])
qed

lemma selected_sorted:
  "sorted_wrt (\<lambda>(r, i) (r', i'). r < r' \<or> (r = r' \<and> i < i'))
     (sort (selectorMatches mf sel cs))"
proof -
  have "sorted_wrt (<) (sort (selectorMatches mf sel cs))"
    by (simp add: strict_sorted_iff distinct_selectorMatches)
  then show ?thesis
    by (rule sorted_wrt_mono_rel [rotated]) (auto simp add: less_prod_def)
qed

lemma multiplyWith_constChannel:
  "multiplyWith (constChannel n w h x) (constChannel m w h y) = Inr (constChannel n w h (x * y))"
proof -
  let ?f = "\<lambda>i v. v * replicate (w * h) y ! i"
  have "parallelFor (w * h) (\<lambda>i xs. xs[i := ?f i (xs ! i)]) (replicate (w * h) x) = replicate (w * h) (x * y)"
    by (rule nth_equalityI) (simp_all add: parallelFor_length [where f = ?f] parallelFor_nth [where f = ?f])
  then show ?thesis
    by (simp add: multiplyWith_def constChannel_def count_def)
qed

lemma constChannel_sel:
  "mName (constChannel n w h v) = n" "cols (constChannel n w h v) = w"
  "rows (constChannel n w h v) = h" "size_channel (constChannel n w h v) = (int w, int h)"
  by (simp_all add: constChannel_def size_channel_def)

text \<open>
  C3. \<open>ensureValid\<close> with an empty selector, on the channels R, G, B, A of size 4 x 4
  with all values 1 except alpha 1/2 (products that are exact in binary floating point),
  not premultiplied, with no layers given and a data window that is unset or 4 x 4:
  it completes, the flag is set, R, G and B hold 1/2 at every pixel, A is unchanged, the
  one layer derived is the root layer, and the channels are in the order R, G, B, A.
\<close>

theorem ensureValid_rgba:
  fixes dw pw :: Box2i and pn :: string and mf :: matcher
  assumes win: "\<not> isValid dw \<or> size_box dw = (4, 4)"
  shows "ensureValid mf []
           \<lparr>channels = [constChannel ''R'' 4 4 (1::real), constChannel ''G'' 4 4 1,
                        constChannel ''B'' 4 4 1, constChannel ''A'' 4 4 (1/2)],
            layers = [], hasPremultipliedAlpha = False,
            dataWindow = dw, displayWindow = pw, partName = pn\<rparr> =
         (None,
           \<lparr>channels = [constChannel ''R'' 4 4 (1/2), constChannel ''G'' 4 4 (1/2),
                        constChannel ''B'' 4 4 (1/2), constChannel ''A'' 4 4 (1/2)],
            layers = [''''], hasPremultipliedAlpha = True,
            dataWindow = (if isValid dw then dw else box_of_size (4, 4)),
            displayWindow = (if isValid pw then pw else box_of_size (4, 4)),
            partName = pn\<rparr>)"
proof -
  let ?cs = "[constChannel ''R'' 4 4 (1::real), constChannel ''G'' 4 4 1,
              constChannel ''B'' 4 4 1, constChannel ''A'' 4 4 (1/2)]"
  let ?cs' = "[constChannel ''R'' 4 4 (1/2::real), constChannel ''G'' 4 4 (1/2),
              constChannel ''B'' 4 4 (1/2), constChannel ''A'' 4 4 (1/2)]"
  have sb: "size_box (box_of_size (4, 4)) = (4, 4)"
    by (simp add: size_box_def box_of_size_def)
  have sd: "size_box dw = (4, 4)" if "isValid dw"
    using win that by simp
  have lay: "layerNames ?cs = ['''']"
    by (simp add: layerNames_def head_def constChannel_sel)
  have tasks: "alphaOperation \<lparr>channels = ?cs, layers = [''''], hasPremultipliedAlpha = False,
            dataWindow = dw', displayWindow = pw', partName = pn\<rparr> = [(0, 3), (1, 3), (2, 3)]" for dw' pw'
    by (simp add: alphaOperation_def channelsInLayer_def alphaChannelName_def layerPrefix_def constChannel_sel)
  have mul: "multiplyAlpha \<lparr>channels = ?cs, layers = [''''], hasPremultipliedAlpha = False,
            dataWindow = dw', displayWindow = pw', partName = pn\<rparr> =
          (None, \<lparr>channels = ?cs', layers = [''''], hasPremultipliedAlpha = True,
            dataWindow = dw', displayWindow = pw', partName = pn\<rparr>)" for dw' pw'
    by (simp add: multiplyAlpha_def tasks multiplyWith_constChannel)
  show ?thesis
    by (cases "isValid dw"; cases "isValid pw")
       (simp_all add: ensureValid_def Let_def lay constChannel_sel sb sd mul)
qed

theorem ensureValid_rgba_witness:
  "\<not> isValid \<lparr>box_min = (0, 0), box_max = (0, 0)\<rparr> \<and>
   ensureValid (\<lambda>text filter. None) []
     (rawImage [constChannel ''R'' 4 4 (1::real), constChannel ''G'' 4 4 1,
                constChannel ''B'' 4 4 1, constChannel ''A'' 4 4 (1/2)] []) =
   (None,
     \<lparr>channels = [constChannel ''R'' 4 4 (1/2), constChannel ''G'' 4 4 (1/2),
                  constChannel ''B'' 4 4 (1/2), constChannel ''A'' 4 4 (1/2)],
      layers = [''''], hasPremultipliedAlpha = True,
      dataWindow = box_of_size (4, 4), displayWindow = box_of_size (4, 4), partName = []\<rparr>)"
proof -
  have inv: "\<not> isValid \<lparr>box_min = (0, 0), box_max = (0, 0)\<rparr>" by (simp add: isValid_def)
  then have h: "\<not> isValid \<lparr>box_min = (0, 0), box_max = (0, 0)\<rparr> \<or>
                size_box \<lparr>box_min = (0, 0), box_max = (0, 0)\<rparr> = (4, 4)" by simp
  from ensureValid_rgba [OF h, of "\<lambda>text filter. None" "\<lparr>box_min = (0, 0), box_max = (0, 0)\<rparr>" "[]"] inv
  show ?thesis by (simp add: rawImage_def)
qed

text \<open>
  C7. When \<open>ensureValid\<close> is given a non-empty selector and completes, the channels it
  leaves are those of a list \<open>ms\<close> of pairs (rank, original index) that is strictly
  ascending in the lexicographic order (matches of equal rank in their original order) and
  holds exactly the pairs of the channels whose names match: name and dimensions of every
  survivor are those of the original channel at that index, and so is the whole channel
  when the image was premultiplied already (otherwise the pixel values have been multiplied
  by alpha since).
\<close>

theorem ensureValid_selector:
  assumes sel: "channelSelector \<noteq> []"
    and ok: "ensureValid mf channelSelector d = (None, d')"
  shows "\<exists>ms. sorted_wrt (\<lambda>(r, i) (r', i'). r < r' \<or> (r = r' \<and> i < i')) ms \<and>
           set ms = {(r, i). i < length (channels d) \<and>
                             mf (mName (channels d ! i)) channelSelector = Some r} \<and>
           map (\<lambda>c. (mName c, cols c, rows c)) (channels d') =
             map (\<lambda>(r, i). (mName (channels d ! i), cols (channels d ! i), rows (channels d ! i))) ms \<and>
           (hasPremultipliedAlpha d \<longrightarrow> channels d' = map (\<lambda>(r, i). channels d ! i) ms)"
proof -
  define ms where "ms = sort (selectorMatches mf channelSelector (channels d))"
  define d1 where "d1 = (if \<not> isValid (dataWindow d)
                  then d\<lparr>dataWindow := box_of_size (size_channel (hd (channels d)))\<rparr> else d)"
  define d2 where "d2 = (if \<not> isValid (displayWindow d1)
                  then d1\<lparr>displayWindow := box_of_size (size_channel (hd (channels d1)))\<rparr> else d1)"
  define d3 where "d3 = d2\<lparr>channels := selectChannels mf channelSelector (channels d2)\<rparr>"
  define d4 where "d4 = (if layers d3 = [] then d3\<lparr>layers := layerNames (channels d3)\<rparr> else d3)"
  have c2: "channels d2 = channels d" and p2: "hasPremultipliedAlpha d2 = hasPremultipliedAlpha d"
    by (simp_all add: d1_def d2_def)
  have c4: "channels d4 = map (\<lambda>(r, i). channels d ! i) ms"
    and p4: "hasPremultipliedAlpha d4 = hasPremultipliedAlpha d"
    by (simp_all add: d4_def d3_def c2 p2 selectChannels_def ms_def case_prod_beta)
  from ok have nonempty: "channels d \<noteq> []"
    by (auto simp add: ensureValid_def)
  from ok nonempty have found: "find (\<lambda>c. size_channel c \<noteq> size_box (dataWindow d2)) (channels d2) = None"
    by (cases "find (\<lambda>c. size_channel c \<noteq> size_box (dataWindow d2)) (channels d2)")
       (simp_all add: ensureValid_def Let_def d1_def [symmetric] d2_def [symmetric])
  have ev: "ensureValid mf channelSelector d =
        (case (if \<not> hasPremultipliedAlpha d4 then multiplyAlpha d4 else (None, d4)) of
                    (Some e, d5) \<Rightarrow> (Some e, d5)
                  | (None, d5) \<Rightarrow>
                      if hasPremultipliedAlpha d5 then (None, d5) else (Some AssertionFailed, d5))"
    using nonempty sel found
    by (simp add: ensureValid_def Let_def d1_def [symmetric] d2_def [symmetric] d3_def [symmetric] d4_def [symmetric])
  have shape: "map (\<lambda>c. (mName c, cols c, rows c)) (channels d') = map (\<lambda>c. (mName c, cols c, rows c)) (channels d4)"
    and same: "hasPremultipliedAlpha d \<longrightarrow> channels d' = channels d4"
  proof -
    show "map (\<lambda>c. (mName c, cols c, rows c)) (channels d') = map (\<lambda>c. (mName c, cols c, rows c)) (channels d4)"
    proof (cases "hasPremultipliedAlpha d4")
      case True
      with ev ok show ?thesis by simp
    next
      case False
      obtain r d5 where m: "multiplyAlpha d4 = (r, d5)" by (cases "multiplyAlpha d4")
      with ev ok False have "d5 = d'" by (cases r) (simp_all split: if_splits)
      with multiplyAlpha_shape [OF m] show ?thesis by simp
    qed
    show "hasPremultipliedAlpha d \<longrightarrow> channels d' = channels d4"
      using ev ok p4 by auto
  qed
  have "sorted_wrt (\<lambda>(r, i) (r', i'). r < r' \<or> (r = r' \<and> i < i')) ms"
    unfolding ms_def by (rule selected_sorted)
  moreover have "set ms = {(r, i). i < length (channels d) \<and>
                             mf (mName (channels d ! i)) channelSelector = Some r}"
    by (simp add: ms_def set_selectorMatches)
  moreover have "map (\<lambda>c. (mName c, cols c, rows c)) (channels d') =
             map (\<lambda>(r, i). (mName (channels d ! i), cols (channels d ! i), rows (channels d ! i))) ms"
    by (simp add: shape c4 case_prod_beta comp_def)
  moreover have "hasPremultipliedAlpha d \<longrightarrow> channels d' = map (\<lambda>(r, i). channels d ! i) ms"
    using same c4 by simp
  ultimately show ?thesis by blast
qed

theorem ensureValid_selector_witness:
  "ensureValid letterMatcher ''GR'' selectorExample = (None, selectorExampleValid) \<and>
   (\<exists>ms. sorted_wrt (\<lambda>(r, i) (r', i'). r < r' \<or> (r = r' \<and> i < i')) ms \<and>
      set ms = {(r, i). i < length (channels selectorExample) \<and>
                        letterMatcher (mName (channels selectorExample ! i)) ''GR'' = Some r} \<and>
      map (\<lambda>c. (mName c, cols c, rows c)) (channels selectorExampleValid) =
        map (\<lambda>(r, i). (mName (channels selectorExample ! i), cols (channels selectorExample ! i),
                         rows (channels selectorExample ! i))) ms \<and>
      (hasPremultipliedAlpha selectorExample \<longrightarrow>
         channels selectorExampleValid = map (\<lambda>(r, i). channels selectorExample ! i) ms))"
proof -
  have sel: "''GR'' \<noteq> []" by simp
  have e: "ensureValid letterMatcher ''GR'' selectorExample = (None, selectorExampleValid)"
    unfolding selectorExample_def selectorExampleValid_def by code_simp
  show ?thesis
    by (rule conjI [OF e ensureValid_selector [OF sel e]])
qed

lemma selectorMatches_none:
  assumes "\<forall>c\<in>set cs. mf (mName c) sel = None"
  shows "selectorMatches mf sel cs = []"
proof -
  have "\<forall>i\<in>set [0..<length cs]. map_option (\<lambda>matchId. (matchId, i)) (mf (mName (cs ! i)) sel) = None"
    using assms by simp
  then show ?thesis
    unfolding selectorMatches_def List.map_filter_def by (simp add: filter_empty_conv)
qed

lemma alphaOperation_no_channels: "channels d = [] \<Longrightarrow> alphaOperation d = []"
  by (simp add: alphaOperation_def)

lemma multiplyAlpha_no_channels:
  "channels d = [] \<Longrightarrow> \<not> hasPremultipliedAlpha d \<Longrightarrow>
   multiplyAlpha d = (None, d\<lparr>hasPremultipliedAlpha := True\<rparr>)"
  by (simp add: multiplyAlpha_def alphaOperation_no_channels)

text \<open>
  C10, as stated: for every image with a non-empty channel list, a non-empty selector that
  matches no channel name makes \<open>ensureValid\<close> complete without an error. The size check
  comes before the selector: with a channel \<open>G\<close> of size 2 x 2 beside a first channel of
  size 1 x 1, the call raises \<open>SizeMismatch\<close> whatever the selector matches.
\<close>

theorem ensureValid_no_match_counterexample:
  "channels (rawImage [constChannel ''R'' 1 1 (1::real), constChannel ''G'' 2 2 1] []) \<noteq> [] \<and>
   fst (ensureValid (\<lambda>text filter. None) ''Q''
          (rawImage [constChannel ''R'' 1 1 (1::real), constChannel ''G'' 2 2 1] [])) =
     Some (SizeMismatch ''G'')"
  by (simp add: ensureValid_def rawImage_def constChannel_def isValid_def size_channel_def
        size_box_def box_of_size_def)

text \<open>
  C10, amended. For every image with a non-empty channel list whose channels all have the
  size of the data window (the window given, or the first channel's size when none is
  valid), a non-empty selector that matches no channel name makes \<open>ensureValid\<close> complete
  without an error, with an empty channel list, the premultiplied flag set, and the layer
  list it was given: empty when it was left to be derived.
\<close>

theorem ensureValid_no_match:
  assumes nonempty: "channels d \<noteq> []"
    and sel: "channelSelector \<noteq> []"
    and nomatch: "\<forall>c\<in>set (channels d). mf (mName c) channelSelector = None"
    and sizes: "\<forall>c\<in>set (channels d). size_channel c =
                  size_box (if isValid (dataWindow d) then dataWindow d
                            else box_of_size (size_channel (hd (channels d))))"
  shows "\<exists>d'. ensureValid mf channelSelector d = (None, d') \<and> channels d' = [] \<and>
              layers d' = layers d \<and> hasPremultipliedAlpha d'"
proof -
  define d1 where "d1 = (if \<not> isValid (dataWindow d)
                  then d\<lparr>dataWindow := box_of_size (size_channel (hd (channels d)))\<rparr> else d)"
  define d2 where "d2 = (if \<not> isValid (displayWindow d1)
                  then d1\<lparr>displayWindow := box_of_size (size_channel (hd (channels d1)))\<rparr> else d1)"
  define d3 where "d3 = d2\<lparr>channels := selectChannels mf channelSelector (channels d2)\<rparr>"
  define d4 where "d4 = (if layers d3 = [] then d3\<lparr>layers := layerNames (channels d3)\<rparr> else d3)"
  have c2: "channels d2 = channels d"
    and w2: "dataWindow d2 = (if isValid (dataWindow d) then dataWindow d
                              else box_of_size (size_channel (hd (channels d))))"
    and l2: "layers d2 = layers d" and p2: "hasPremultipliedAlpha d2 = hasPremultipliedAlpha d"
    by (simp_all add: d1_def d2_def)
  have found: "find (\<lambda>c. size_channel c \<noteq> size_box (dataWindow d2)) (channels d2) = None"
    using sizes by (simp add: find_None_iff c2 w2)
  have c3: "channels d3 = []"
    using nomatch by (simp add: d3_def c2 selectChannels_def selectorMatches_none)
  have c4: "channels d4 = []" and l4: "layers d4 = layers d"
    using c3 by (simp_all add: d4_def d3_def l2 p2 layerNames_def)
  have ev: "ensureValid mf channelSelector d =
        (case (if \<not> hasPremultipliedAlpha d4 then multiplyAlpha d4 else (None, d4)) of
           (Some e, d5) \<Rightarrow> (Some e, d5)
         | (None, d5) \<Rightarrow>
             if hasPremultipliedAlpha d5 then (None, d5) else (Some AssertionFailed, d5))"
    using nonempty sel found
    by (simp add: ensureValid_def Let_def d1_def [symmetric] d2_def [symmetric]
          d3_def [symmetric] d4_def [symmetric])
  show ?thesis
  proof (cases "hasPremultipliedAlpha d4")
    case True
    with ev c4 l4 show ?thesis by simp
  next
    case False
    with ev c4 l4 multiplyAlpha_no_channels [OF c4 False] show ?thesis by simp
  qed
qed

theorem ensureValid_no_match_witness:
  "\<exists>d'. ensureValid letterMatcher ''Q''
           (rawImage [constChannel ''R'' 1 1 (1::real), constChannel ''G'' 1 1 1] []) = (None, d') \<and>
        channels d' = [] \<and> layers d' = [] \<and> hasPremultipliedAlpha d'"
proof -
  let ?d = "rawImage [constChannel ''R'' 1 1 (1::real), constChannel ''G'' 1 1 1] []"
  have h1: "channels ?d \<noteq> []" by (simp add: rawImage_def)
  have h2: "''Q'' \<noteq> []" by simp
  have h3: "\<forall>c\<in>set (channels ?d). letterMatcher (mName c) ''Q'' = None"
    by (simp add: rawImage_def constChannel_def tail_def)
  have h4: "\<forall>c\<in>set (channels ?d). size_channel c =
              size_box (if isValid (dataWindow ?d) then dataWindow ?d
                        else box_of_size (size_channel (hd (channels ?d))))"
    by (simp add: rawImage_def constChannel_def isValid_def size_channel_def size_box_def box_of_size_def)
  have l: "layers ?d = []" by (simp add: rawImage_def)
  from ensureValid_no_match [where d = ?d and channelSelector = "''Q''" and mf = letterMatcher,
      OF h1 h2 h3 h4] l
  show ?thesis by simp
qed

section \<open>Properties of BackgroundImagesLoader\<close>













section \<open>Properties of getGroupedChannels\<close>

lemma createChannelGroup_rgba: "createChannelGroup [] [''R'', ''G'', ''B'', ''A''] =
             Inr \<lparr>group_name = ''R,G,B,A'', group_channels = [''R'', ''G'', ''B'', ''A'']\<rparr>"
  by (simp add: createChannelGroup_def tail_def)

lemma createChannelGroup_zzza: "createChannelGroup [] [''Z'', ''Z'', ''Z'', ''A''] =
             Inr \<lparr>group_name = ''Z,A'', group_channels = [''Z'', ''Z'', ''Z'', ''A'']\<rparr>"
  by (simp add: createChannelGroup_def tail_def)

lemma groupLoop_after_rgb: "groupLoop [] True
                  [[''r'', ''g'', ''b''], [''X'', ''Y'', ''Z''], [''x'', ''y'', ''z''],
                   [''U'', ''V''], [''u'', ''v''], [''Z''], [''z'']]
                  [''Z'']
                  [\<lparr>group_name = ''R,G,B,A'', group_channels = [''R'', ''G'', ''B'', ''A'']\<rparr>] =
          Inr ([], [\<lparr>group_name = ''R,G,B,A'', group_channels = [''R'', ''G'', ''B'', ''A'']\<rparr>,
                \<lparr>group_name = ''Z,A'', group_channels = [''Z'', ''Z'', ''Z'', ''A'']\<rparr>])"
  by (simp add: layerPrefix_def alphaChannelName_def createChannelGroup_zzza)

lemma distinct_singleton:
  assumes "distinct xs" and "set xs = {a}"
  shows "xs = [a]"
proof (cases xs)
  case Nil
  with assms show ?thesis by simp
next
  case outer: (Cons x ys)
  with assms have x: "x = a" and sub: "set ys \<subseteq> {a}" and notin: "x \<notin> set ys" by auto
  have "ys = []"
  proof (cases ys)
    case Nil
    then show ?thesis .
  next
    case (Cons y zs)
    with sub have "y = a" by simp
    with notin x Cons show ?thesis by simp
  qed
  with outer x show ?thesis by simp
qed

lemma channelsInLayer_root:
  "channelsInLayer d [] = filter (\<lambda>n. CHR ''.'' \<notin> set n) (map mName (channels d))"
  by (simp add: channelsInLayer_def filter_map comp_def)

lemma collect_rgb:
  assumes dp: "distinct pool" and sp: "set pool = {''R'', ''G'', ''B'', ''Z''}"
  shows "collectGroup [] [''R'', ''G'', ''B''] [] pool = ([''R'', ''G'', ''B''], [''Z''])"
proof -
  let ?p1 = "remove1 ''R'' pool"
  let ?p2 = "remove1 ''G'' ?p1"
  let ?p3 = "remove1 ''B'' ?p2"
  have d1: "distinct ?p1" using dp by simp
  have s1: "set ?p1 = {''G'', ''B'', ''Z''}"
    by (simp add: set_remove1_eq [OF dp] sp insert_Diff_if)
  have d2: "distinct ?p2" using d1 by simp
  have s2: "set ?p2 = {''B'', ''Z''}"
    by (simp add: set_remove1_eq [OF d1] s1 insert_Diff_if)
  have d3: "distinct ?p3" using d2 by simp
  have s3: "set ?p3 = {''Z''}"
    by (simp add: set_remove1_eq [OF d2] s2 insert_Diff_if)
  from d3 s3 have rest: "?p3 = [''Z'']" by (rule distinct_singleton)
  have r: "''R'' \<in> set pool" and g: "''G'' \<in> set ?p1" and b: "''B'' \<in> set ?p2"
    unfolding sp s1 s2 by simp_all
  show ?thesis by (simp add: r g b rest)
qed

text \<open>
  C2. For every image whose channels are named R, G, B, A and Z, once each and in any
  order, \<open>getGroupedChannels\<close> of the root layer returns exactly two groups, with the
  members R, G, B, A and Z, Z, Z, A: the alpha channel leaves the pool first and ends
  every group, the tuple R, G, B is tried first and takes its three members, Z is taken
  next (by the tuple X, Y, Z, of which it is the one member present), and that
  single-member group holds the channel three times.
\<close>

theorem getGroupedChannels_rgbaz:
  assumes dist: "distinct (map mName (channels d))"
    and names: "set (map mName (channels d)) = {''R'', ''G'', ''B'', ''A'', ''Z''}"
  shows "getGroupedChannels d '''' =
           Inr [\<lparr>group_name = ''R,G,B,A'', group_channels = [''R'', ''G'', ''B'', ''A'']\<rparr>,
                \<lparr>group_name = ''Z,A'', group_channels = [''Z'', ''Z'', ''Z'', ''A'']\<rparr>]"
proof -
  let ?ns = "map mName (channels d)"
  have "\<forall>n\<in>set ?ns. CHR ''.'' \<notin> set n" unfolding names by simp
  then have all: "channelsInLayer d [] = ?ns"
    unfolding channelsInLayer_root by (simp only: filter_True)
  define pool where "pool = remove1 ''A'' ?ns"
  have dp: "distinct pool" using dist by (simp add: pool_def)
  have sp: "set pool = {''R'', ''G'', ''B'', ''Z''}"
    unfolding pool_def set_remove1_eq [OF dist] names by (simp add: insert_Diff_if)
  have loop: "groupLoop [] True groups pool [] =
          Inr ([], [\<lparr>group_name = ''R,G,B,A'', group_channels = [''R'', ''G'', ''B'', ''A'']\<rparr>,
                \<lparr>group_name = ''Z,A'', group_channels = [''Z'', ''Z'', ''Z'', ''A'']\<rparr>])"
    unfolding groups_def
    by (subst groupLoop.simps)
       (simp add: layerPrefix_def alphaChannelName_def collect_rgb [OF dp sp] createChannelGroup_rgba groupLoop_after_rgb
          del: groupLoop.simps collectGroup.simps)
  have alpha: "''A'' \<in> set ?ns" unfolding names by simp
  show ?thesis
    using alpha
    by (simp add: getGroupedChannels_def Let_def all alphaChannelName_def layerPrefix_def
          pool_def [symmetric] loop del: groupLoop.simps)
qed

theorem getGroupedChannels_rgbaz_witness:
  "getGroupedChannels
     (rawImage [constChannel ''Z'' 1 1 (1::real), constChannel ''A'' 1 1 1, constChannel ''B'' 1 1 1,
                constChannel ''G'' 1 1 1, constChannel ''R'' 1 1 1] ['''']) '''' =
   Inr [\<lparr>group_name = ''R,G,B,A'', group_channels = [''R'', ''G'', ''B'', ''A'']\<rparr>,
        \<lparr>group_name = ''Z,A'', group_channels = [''Z'', ''Z'', ''Z'', ''A'']\<rparr>]"
proof -
  let ?d = "rawImage [constChannel ''Z'' 1 1 (1::real), constChannel ''A'' 1 1 1, constChannel ''B'' 1 1 1,
                constChannel ''G'' 1 1 1, constChannel ''R'' 1 1 1] ['''']"
  have h1: "distinct (map mName (channels ?d))"
    by (simp add: rawImage_def constChannel_def)
  have h2: "set (map mName (channels ?d)) = {''R'', ''G'', ''B'', ''A'', ''Z''}"
    by (auto simp add: rawImage_def constChannel_def)
  from getGroupedChannels_rgbaz [OF h1 h2] show ?thesis .
qed

lemma createChannelGroup_channels:
  "createChannelGroup layer chans = Inr g \<Longrightarrow> group_channels g = chans"
  by (auto simp add: createChannelGroup_def Let_def split: if_splits)

lemma createChannelGroup_again:
  "createChannelGroup layer chans = Inr g \<Longrightarrow> createChannelGroup layer (group_channels g) = Inr g"
  by (simp add: createChannelGroup_channels)

lemma groupLoop_created:
  assumes "\<forall>g\<in>set result. createChannelGroup layer (group_channels g) = Inr g"
    and "groupLoop layer hasAlpha gs pool result = Inr (pool', result')"
  shows "\<forall>g\<in>set result'. createChannelGroup layer (group_channels g) = Inr g"
  using assms
proof (induction gs arbitrary: pool result)
  case Nil
  then show ?case by simp
next
  case (Cons grp gs)
  obtain gc pool1 where cg: "collectGroup (layerPrefix layer) grp [] pool = (gc, pool1)"
    by (cases "collectGroup (layerPrefix layer) grp [] pool")
  show ?case
  proof (cases "gc = []")
    case True
    with Cons.prems(2) cg have "groupLoop layer hasAlpha gs pool1 result = Inr (pool', result')"
      by simp
    with Cons.IH Cons.prems(1) show ?thesis by blast
  next
    case False
    define gc2 where "gc2 = (let gc1 = (if length gc = 1 then gc @ [hd gc] @ [hd gc] else gc)
                              in if hasAlpha then gc1 @ [alphaChannelName layer] else gc1)"
    from Cons.prems(2) cg False obtain g where
      g: "createChannelGroup layer gc2 = Inr g"
      and rest: "groupLoop layer hasAlpha gs pool1 (result @ [g]) = Inr (pool', result')"
      by (cases "createChannelGroup layer gc2") (simp_all add: gc2_def Let_def)
    from Cons.prems(1) createChannelGroup_again [OF g]
    have "\<forall>g\<in>set (result @ [g]). createChannelGroup layer (group_channels g) = Inr g" by simp
    with Cons.IH rest show ?thesis by blast
  qed
qed

lemma remainingLoop_created:
  assumes "\<forall>g\<in>set result. createChannelGroup layer (group_channels g) = Inr g"
    and "remainingLoop layer hasAlpha pool result = Inr result'"
  shows "\<forall>g\<in>set result'. createChannelGroup layer (group_channels g) = Inr g"
  using assms
proof (induction pool arbitrary: result)
  case Nil
  then show ?case by simp
next
  case (Cons name pool)
  let ?chans = "if hasAlpha then [name, name, name, alphaChannelName layer] else [name, name, name]"
  from Cons.prems(2) obtain g where
    g: "createChannelGroup layer ?chans = Inr g"
    and rest: "remainingLoop layer hasAlpha pool (result @ [g]) = Inr result'"
    by (cases "createChannelGroup layer ?chans") simp_all
  from Cons.prems(1) createChannelGroup_again [OF g]
  have "\<forall>g\<in>set (result @ [g]). createChannelGroup layer (group_channels g) = Inr g" by simp
  with Cons.IH rest show ?case by blast
qed

lemma getGroupedChannels_created:
  assumes "getGroupedChannels d layer = Inr gs"
  shows "\<forall>g\<in>set gs. createChannelGroup layer (group_channels g) = Inr g"
proof -
  define alpha where "alpha = alphaChannelName layer"
  define hasAlpha where "hasAlpha \<longleftrightarrow> alpha \<in> set (channelsInLayer d layer)"
  define pool where "pool = (if hasAlpha then remove1 alpha (channelsInLayer d layer)
                             else channelsInLayer d layer)"
  have unfold: "getGroupedChannels d layer =
      (case groupLoop layer hasAlpha groups pool [] of
           Inl e \<Rightarrow> Inl e
         | Inr (allChannels', result) \<Rightarrow>
             (case remainingLoop layer hasAlpha allChannels' result of
                Inl e \<Rightarrow> Inl e
              | Inr result' \<Rightarrow>
                  (case (if hasAlpha \<and> result' = []
                         then map_sum id (\<lambda>g. result' @ [g])
                                (createChannelGroup layer [alpha, alpha, alpha])
                         else Inr result') of
                     Inl e \<Rightarrow> Inl e
                   | Inr result'' \<Rightarrow>
                       if result'' = [] then Inl AssertionFailed else Inr result'')))"
    unfolding getGroupedChannels_def Let_def pool_def hasAlpha_def alpha_def ..
  from assms obtain pool' result where
    loop: "groupLoop layer hasAlpha groups pool [] = Inr (pool', result)"
    by (cases "groupLoop layer hasAlpha groups pool []") (auto simp add: unfold)
  from assms obtain result' where
    rem: "remainingLoop layer hasAlpha pool' result = Inr result'"
    by (cases "remainingLoop layer hasAlpha pool' result") (auto simp add: unfold loop)
  have r: "\<forall>g\<in>set result. createChannelGroup layer (group_channels g) = Inr g"
    using groupLoop_created [OF _ loop] by simp
  have r': "\<forall>g\<in>set result'. createChannelGroup layer (group_channels g) = Inr g"
    using remainingLoop_created [OF r rem] .
  from assms have final:
    "(case (if hasAlpha \<and> result' = []
            then map_sum id (\<lambda>g. result' @ [g]) (createChannelGroup layer [alpha, alpha, alpha])
            else Inr result') of
        Inl e \<Rightarrow> Inl e
      | Inr result'' \<Rightarrow> if result'' = [] then Inl AssertionFailed else Inr result'') = Inr gs"
    by (simp add: unfold loop rem)
  show ?thesis
  proof (cases "hasAlpha \<and> result' = []")
    case False
    with final have "gs = result'" by (auto split: if_splits)
    with r' show ?thesis by simp
  next
    case True
    with final obtain g where
      g: "createChannelGroup layer [alpha, alpha, alpha] = Inr g" and gs: "gs = [g]"
      by (cases "createChannelGroup layer [alpha, alpha, alpha]") (auto split: if_splits)
    with createChannelGroup_again [OF g] show ?thesis by simp
  qed
qed

lemma createChannelGroup_name:
  assumes "createChannelGroup layer chans = Inr g"
  shows "chans \<noteq> [] \<and>
         group_name g =
           (if layer = [] then join (map tail (remdups_adj chans)) '',''
            else if length (remdups_adj chans) = 1
                 then layer @ ''.'' @ join (map tail (remdups_adj chans)) '',''
                 else layer @ ''.('' @ join (map tail (remdups_adj chans)) '','' @ '')'')"
  using assms by (auto simp add: createChannelGroup_def Let_def split: if_splits)

text \<open>
  C9, as stated: the name is in parentheses whenever more than one distinct tail remains.
  For the root layer \<open>createChannelGroup\<close> returns the joined tails as they are: the
  group of R, G, B and A is named \<open>R,G,B,A\<close>, where the specification gives \<open>(R,G,B,A)\<close>.
\<close>

theorem group_display_name_counterexample:
  "getGroupedChannels
     (rawImage [constChannel ''R'' 1 1 (1::real), constChannel ''G'' 1 1 1,
                constChannel ''B'' 1 1 1, constChannel ''A'' 1 1 1] ['''']) '''' =
     Inr [\<lparr>group_name = ''R,G,B,A'', group_channels = [''R'', ''G'', ''B'', ''A'']\<rparr>] \<and>
   specGroupName '''' [''R'', ''G'', ''B'', ''A''] = ''(R,G,B,A)''"
  by code_simp

text \<open>
  C9, amended. For every group that \<open>getGroupedChannels\<close> produces, the member list is
  not empty and the display name is made of the tails of the members, consecutive
  repetitions of a member counted once, joined by commas: for the root layer the joined
  tails as they are, however many; for any other layer prefixed by the layer and a dot,
  and in parentheses unless one tail remains.
\<close>

theorem group_display_name:
  assumes "getGroupedChannels d layer = Inr gs"
  shows "\<forall>g\<in>set gs.
           group_channels g \<noteq> [] \<and>
           group_name g =
             (if layer = [] then join (map tail (remdups_adj (group_channels g))) '',''
              else if length (remdups_adj (group_channels g)) = 1
                   then layer @ ''.'' @ join (map tail (remdups_adj (group_channels g))) '',''
                   else layer @ ''.('' @ join (map tail (remdups_adj (group_channels g))) '','' @ '')'')"
proof
  fix g assume "g \<in> set gs"
  with getGroupedChannels_created [OF assms]
  have "createChannelGroup layer (group_channels g) = Inr g" by simp
  then show "group_channels g \<noteq> [] \<and>
           group_name g =
             (if layer = [] then join (map tail (remdups_adj (group_channels g))) '',''
              else if length (remdups_adj (group_channels g)) = 1
                   then layer @ ''.'' @ join (map tail (remdups_adj (group_channels g))) '',''
                   else layer @ ''.('' @ join (map tail (remdups_adj (group_channels g))) '','' @ '')'')"
    by (rule createChannelGroup_name)
qed

theorem group_display_name_witness:
  "getGroupedChannels
     (rawImage [constChannel ''foo.R'' 1 1 (1::real), constChannel ''foo.G'' 1 1 1,
                constChannel ''foo.A'' 1 1 1, constChannel ''bar.Y'' 1 1 1] [''bar'', ''foo'']) ''foo'' =
     Inr [\<lparr>group_name = ''foo.(R,G,A)'', group_channels = [''foo.R'', ''foo.G'', ''foo.A'']\<rparr>] \<and>
   getGroupedChannels
     (rawImage [constChannel ''foo.R'' 1 1 (1::real), constChannel ''foo.G'' 1 1 1,
                constChannel ''foo.A'' 1 1 1, constChannel ''bar.Y'' 1 1 1] [''bar'', ''foo'']) ''bar'' =
     Inr [\<lparr>group_name = ''bar.Y'', group_channels = [''bar.Y'', ''bar.Y'', ''bar.Y'']\<rparr>] \<and>
   ''foo.(R,G,A)'' = ''foo'' @ ''.('' @ join (map tail (remdups_adj [''foo.R'', ''foo.G'', ''foo.A''])) '','' @ '')'' \<and>
   ''bar.Y'' = ''bar'' @ ''.'' @ join (map tail (remdups_adj [''bar.Y'', ''bar.Y'', ''bar.Y''])) '',''"
proof -
  let ?d = "rawImage [constChannel ''foo.R'' 1 1 (1::real), constChannel ''foo.G'' 1 1 1,
                constChannel ''foo.A'' 1 1 1, constChannel ''bar.Y'' 1 1 1] [''bar'', ''foo'']"
  have foo: "getGroupedChannels ?d ''foo'' =
     Inr [\<lparr>group_name = ''foo.(R,G,A)'', group_channels = [''foo.R'', ''foo.G'', ''foo.A'']\<rparr>]"
    by code_simp
  have bar: "getGroupedChannels ?d ''bar'' =
     Inr [\<lparr>group_name = ''bar.Y'', group_channels = [''bar.Y'', ''bar.Y'', ''bar.Y'']\<rparr>]"
    by code_simp
  from group_display_name [OF foo] group_display_name [OF bar] foo bar
  show ?thesis by simp
qed

section \<open>The round trip of multiplyAlpha and unmultiplyAlpha\<close>

lemma channelIndex_Some:
  "channelIndex cs channelName = Some i \<Longrightarrow> i < length cs \<and> mName (cs ! i) = channelName"
proof (induction cs arbitrary: i)
  case Nil
  then show ?case by simp
next
  case (Cons c cs)
  show ?case
  proof (cases "mName c = channelName")
    case True
    with Cons.prems show ?thesis by simp
  next
    case False
    with Cons.prems obtain j where j: "channelIndex cs channelName = Some j" and i: "i = Suc j"
      by auto
    from Cons.IH [OF j] i show ?thesis by simp
  qed
qed

lemma channelIndex_names:
  "map mName cs' = map mName cs \<Longrightarrow> channelIndex cs' channelName = channelIndex cs channelName"
proof (induction cs arbitrary: cs')
  case Nil
  then show ?case by simp
next
  case (Cons c cs)
  then obtain c' cs'' where cs': "cs' = c' # cs''" by (cases cs') auto
  with Cons.prems have "mName c' = mName c" and "map mName cs'' = map mName cs" by simp_all
  with Cons.IH [of cs''] cs' show ?case by simp
qed

lemma map_mName_filter:
  "map mName (filter (\<lambda>c. P (mName c)) cs) = filter P (map mName cs)"
  by (simp add: filter_map comp_def)

lemma channelsInLayer_names:
  assumes "map mName (channels d') = map mName (channels d)"
  shows "channelsInLayer d' layer = channelsInLayer d layer"
  unfolding channelsInLayer_def
  by (simp only: map_mName_filter [where P = "\<lambda>n. CHR ''.'' \<notin> set n"]
        map_mName_filter [where P = "\<lambda>n. starts_with n layer \<and> length n > length layer \<and>
                               CHR ''.'' \<notin> set (drop (length layer + 1) n)"] assms)

lemma alphaOperation_names:
  assumes "map mName (channels d') = map mName (channels d)" and "layers d' = layers d"
  shows "alphaOperation d' = alphaOperation d"
  unfolding alphaOperation_def
  by (simp only: channelIndex_names [OF assms(1)] channelsInLayer_names [OF assms(1)] assms(2))

lemma alphaOperation_bounds:
  assumes "(t, a) \<in> set (alphaOperation d)"
  shows "t < length (channels d) \<and> a < length (channels d)"
proof -
  from assms obtain layer n where
    "channelIndex (channels d) (alphaChannelName layer) = Some a"
    and "channelIndex (channels d) n = Some t"
    unfolding alphaOperation_def by (auto split: option.splits if_splits)
  then show ?thesis by (auto dest: channelIndex_Some)
qed

lemma runTasks_result:
  fixes g :: "'a list \<Rightarrow> 'a list \<Rightarrow> 'a list"
  assumes opn: "\<And>x y. count y \<le> count x \<Longrightarrow> opn x y = Inr (x\<lparr>mData := g (mData x) (mData y)\<rparr>)"
    and len: "\<And>xs ys. length (g xs ys) = length xs"
  shows "distinct (map fst ts) \<Longrightarrow> set (map fst ts) \<inter> set (map snd ts) = {} \<Longrightarrow>
         (\<forall>p\<in>set ts. fst p < length cs \<and> snd p < length cs) \<Longrightarrow>
         (\<forall>c\<in>set cs. count c = n) \<Longrightarrow>
         \<exists>cs'. runTasks opn ts cs = (None, cs') \<and> length cs' = length cs \<and>
               (\<forall>c\<in>set cs'. count c = n) \<and>
               (\<forall>k<length cs. cs' ! k =
                  (case map_of ts k of
                     None \<Rightarrow> cs ! k
                   | Some a \<Rightarrow> (cs ! k)\<lparr>mData := g (mData (cs ! k)) (mData (cs ! a))\<rparr>))"
proof (induction ts arbitrary: cs)
  case Nil
  then show ?case by simp
next
  case (Cons task ts)
  obtain t a where task: "task = (t, a)" by (cases task)
  from Cons.prems(3) task have t: "t < length cs" and a: "a < length cs" by simp_all
  from Cons.prems(4) t a have ct: "count (cs ! t) = n" and ca: "count (cs ! a) = n" by simp_all
  define c where "c = (cs ! t)\<lparr>mData := g (mData (cs ! t)) (mData (cs ! a))\<rparr>"
  have step: "opn (cs ! t) (cs ! a) = Inr c"
    unfolding c_def by (rule opn) (simp add: ct ca)
  have cc: "count c = n"
    using ct by (simp add: c_def count_def len)
  let ?cs1 = "cs[t := c]"
  from Cons.prems(1) task have d': "distinct (map fst ts)" and tnew: "t \<notin> fst ` set ts" by simp_all
  from Cons.prems(2) task have disj': "set (map fst ts) \<inter> set (map snd ts) = {}"
    and tnot: "t \<notin> snd ` set ts" by auto
  from Cons.prems(3) have b': "\<forall>p\<in>set ts. fst p < length ?cs1 \<and> snd p < length ?cs1" by simp
  have n': "\<forall>x\<in>set ?cs1. count x = n"
  proof
    fix x assume "x \<in> set ?cs1"
    then have "x = c \<or> x \<in> set cs" using set_update_subset_insert [of cs t c] by auto
    with cc Cons.prems(4) show "count x = n" by auto
  qed
  from Cons.IH [OF d' disj' b' n'] obtain cs' where
    run: "runTasks opn ts ?cs1 = (None, cs')" and l: "length cs' = length ?cs1"
    and cnt: "\<forall>x\<in>set cs'. count x = n"
    and val: "\<forall>k<length ?cs1. cs' ! k =
                  (case map_of ts k of
                     None \<Rightarrow> ?cs1 ! k
                   | Some a \<Rightarrow> (?cs1 ! k)\<lparr>mData := g (mData (?cs1 ! k)) (mData (?cs1 ! a))\<rparr>)"
    by blast
  have r: "runTasks opn (task # ts) cs = (None, cs')"
    by (simp add: task step run)
  have v: "cs' ! k = (case map_of (task # ts) k of
                     None \<Rightarrow> cs ! k
                   | Some a \<Rightarrow> (cs ! k)\<lparr>mData := g (mData (cs ! k)) (mData (cs ! a))\<rparr>)"
    if k: "k < length cs" for k
  proof (cases "k = t")
    case True
    from tnew have "map_of ts t = None" by (simp add: map_of_eq_None_iff)
    with val t True show ?thesis by (simp add: task c_def)
  next
    case False
    show ?thesis
    proof (cases "map_of ts k")
      case None
      with val k False show ?thesis by (simp add: task)
    next
      case (Some a')
      then have "(k, a') \<in> set ts" by (rule map_of_SomeD)
      then have "a' \<in> snd ` set ts" by force
      with tnot have "a' \<noteq> t" by auto
      with val k False Some show ?thesis by (simp add: task)
    qed
  qed
  from r l cnt v show ?case by auto
qed

lemma multiplyWith_eq:
  "count y \<le> count x \<Longrightarrow>
   multiplyWith x y =
     Inr (x\<lparr>mData := parallelFor (length (mData y)) (\<lambda>i xs. xs[i := xs ! i * mData y ! i]) (mData x)\<rparr>)"
  by (simp add: multiplyWith_def count_def)

lemma divideBy_eq:
  "count y \<le> count x \<Longrightarrow>
   divideBy x y =
     Inr (x\<lparr>mData := parallelFor (length (mData y))
            (\<lambda>i xs. xs[i := (if mData y ! i \<noteq> 0 then xs ! i / mData y ! i else 0)]) (mData x)\<rparr>)"
  by (simp add: divideBy_def count_def)

text \<open>
  The round trip where every channel is scaled at most once. Let the image be not
  premultiplied, let all its channels hold the same number \<open>n\<close> of pixels, and let
  \<open>alphaOperation\<close> scale every channel at most once and never scale a channel that is the
  alpha channel of a call. Then \<open>multiplyAlpha\<close> followed by \<open>unmultiplyAlpha\<close> completes
  and leaves the image as it was, the name and the dimensions of every channel included,
  but for the values of the scaled channels; a scaled channel holds, at every pixel,
  \<open>(v * \<alpha>) / \<alpha>\<close> where the alpha value \<open>\<alpha>\<close> is not 0, and 0 where it is 0, \<open>v\<close> being the
  original value. That is \<open>v\<close> itself wherever the product and the quotient are exact. The
  lemma holds for every pixel type, with no law of arithmetic assumed.
\<close>

lemma alpha_round_trip:
  fixes d :: "'a::{zero,times,inverse} ImageData"
  assumes np: "\<not> hasPremultipliedAlpha d"
    and sizes: "\<forall>c\<in>set (channels d). count c = n"
    and once: "distinct (map fst (alphaOperation d))"
    and apart: "set (map fst (alphaOperation d)) \<inter> set (map snd (alphaOperation d)) = {}"
  shows "\<exists>d1 d2. multiplyAlpha d = (None, d1) \<and> unmultiplyAlpha d1 = (None, d2) \<and>
           d2 = d\<lparr>channels := channels d2\<rparr> \<and> length (channels d2) = length (channels d) \<and>
           map (\<lambda>c. (mName c, cols c, rows c)) (channels d2) =
             map (\<lambda>c. (mName c, cols c, rows c)) (channels d) \<and>
           (\<forall>p\<in>set (alphaOperation d). \<forall>i<n.
              mData (channels d2 ! fst p) ! i =
                (if mData (channels d ! snd p) ! i \<noteq> 0
                 then (mData (channels d ! fst p) ! i * mData (channels d ! snd p) ! i) /
                        mData (channels d ! snd p) ! i
                 else 0)) \<and>
           (\<forall>k<length (channels d). k \<notin> fst ` set (alphaOperation d) \<longrightarrow>
              channels d2 ! k = channels d ! k)"
proof -
  let ?ts = "alphaOperation d"
  let ?cs = "channels d"
  let ?gm = "\<lambda>xs ys :: 'a list. parallelFor (length ys) (\<lambda>i xs. xs[i := xs ! i * ys ! i]) xs"
  let ?gd = "\<lambda>xs ys :: 'a list. parallelFor (length ys)
               (\<lambda>i xs. xs[i := (if ys ! i \<noteq> 0 then xs ! i / ys ! i else 0)]) xs"
  have bounds: "\<forall>p\<in>set ?ts. fst p < length ?cs \<and> snd p < length ?cs"
    using alphaOperation_bounds [of _ _ d] by auto
  have lm: "length (?gm xs ys) = length xs" for xs ys
    by (rule parallelFor_length [where f = "\<lambda>i v. v * ys ! i"])
  have ld: "length (?gd xs ys) = length xs" for xs ys
    by (rule parallelFor_length [where f = "\<lambda>i v. if ys ! i \<noteq> 0 then v / ys ! i else 0"])
  from runTasks_result [where opn = multiplyWith and g = ?gm, OF multiplyWith_eq lm once apart bounds sizes]
  obtain cs1 where run1: "runTasks multiplyWith ?ts ?cs = (None, cs1)"
    and l1: "length cs1 = length ?cs" and n1: "\<forall>c\<in>set cs1. count c = n"
    and v1: "\<forall>k<length ?cs. cs1 ! k =
               (case map_of ?ts k of None \<Rightarrow> ?cs ! k
                | Some a \<Rightarrow> (?cs ! k)\<lparr>mData := ?gm (mData (?cs ! k)) (mData (?cs ! a))\<rparr>)"
    by blast
  define d1 where "d1 = d\<lparr>channels := cs1, hasPremultipliedAlpha := True\<rparr>"
  have m: "multiplyAlpha d = (None, d1)"
    using np by (simp add: multiplyAlpha_def run1 d1_def)
  have shape1: "map (\<lambda>c. (mName c, cols c, rows c)) cs1 = map (\<lambda>c. (mName c, cols c, rows c)) ?cs"
    by (rule runTasks_shape [of multiplyWith, OF multiplyWith_shape run1])
  from arg_cong [OF this, of "map fst"] have names: "map mName cs1 = map mName ?cs"
    by (simp add: comp_def)
  have ts1: "alphaOperation d1 = ?ts"
    by (rule alphaOperation_names) (simp_all add: d1_def names)
  from bounds l1 have bounds1: "\<forall>p\<in>set ?ts. fst p < length cs1 \<and> snd p < length cs1" by simp
  from runTasks_result [where opn = divideBy and g = ?gd, OF divideBy_eq ld once apart bounds1 n1]
  obtain cs2 where run2: "runTasks divideBy ?ts cs1 = (None, cs2)"
    and l2: "length cs2 = length cs1"
    and v2: "\<forall>k<length cs1. cs2 ! k =
               (case map_of ?ts k of None \<Rightarrow> cs1 ! k
                | Some a \<Rightarrow> (cs1 ! k)\<lparr>mData := ?gd (mData (cs1 ! k)) (mData (cs1 ! a))\<rparr>)"
    by blast
  define d2 where "d2 = d1\<lparr>channels := cs2, hasPremultipliedAlpha := False\<rparr>"
  have u: "unmultiplyAlpha d1 = (None, d2)"
    by (simp add: unmultiplyAlpha_def ts1 d2_def) (simp add: d1_def run2)
  have same: "d2 = d\<lparr>channels := channels d2\<rparr>"
    using np by (simp add: d2_def d1_def)
  have len: "length (channels d2) = length ?cs"
    by (simp add: d2_def l2 l1)
  have "map (\<lambda>c. (mName c, cols c, rows c)) cs2 = map (\<lambda>c. (mName c, cols c, rows c)) cs1"
    by (rule runTasks_shape [of divideBy, OF divideBy_shape run2])
  with shape1 have shape: "map (\<lambda>c. (mName c, cols c, rows c)) (channels d2) =
                             map (\<lambda>c. (mName c, cols c, rows c)) ?cs"
    by (simp add: d2_def)
  have targets: "mData (channels d2 ! t) ! i =
                (if mData (?cs ! a) ! i \<noteq> 0
                 then (mData (?cs ! t) ! i * mData (?cs ! a) ! i) / mData (?cs ! a) ! i
                 else 0)" if p: "(t, a) \<in> set ?ts" and i: "i < n" for t a i
  proof -
    from p bounds have t: "t < length ?cs" and a: "a < length ?cs" by auto
    from sizes t a have lt: "length (mData (?cs ! t)) = n" and la: "length (mData (?cs ! a)) = n"
      by (simp_all add: count_def [symmetric])
    from p once have mt: "map_of ?ts t = Some a" by (rule map_of_is_SomeI [rotated])
    from p have "a \<in> snd ` set ?ts" by force
    with apart have "a \<notin> fst ` set ?ts" by auto
    then have ma: "map_of ?ts a = None" by (simp add: map_of_eq_None_iff)
    from v1 t mt have c1t: "cs1 ! t = (?cs ! t)\<lparr>mData := ?gm (mData (?cs ! t)) (mData (?cs ! a))\<rparr>"
      by simp
    from v1 a ma have c1a: "cs1 ! a = ?cs ! a" by simp
    from v2 t l1 mt have "cs2 ! t = (cs1 ! t)\<lparr>mData := ?gd (mData (cs1 ! t)) (mData (cs1 ! a))\<rparr>"
      by simp
    then have "mData (cs2 ! t) = ?gd (mData (cs1 ! t)) (mData (cs1 ! a))"
      by simp
    then have e: "mData (cs2 ! t) = ?gd (?gm (mData (?cs ! t)) (mData (?cs ! a))) (mData (?cs ! a))"
      unfolding c1t c1a by simp
    define v where "v = mData (?cs ! t)"
    define al where "al = mData (?cs ! a)"
    define x where "x = ?gm v al"
    have lv: "length v = n" and lal: "length al = n" by (simp_all add: v_def al_def lt la)
    have lx: "length x = n" by (simp add: x_def lm lv)
    have xi: "x ! i = v ! i * al ! i"
      unfolding x_def using i lv lal
      by (simp add: parallelFor_nth [where f = "\<lambda>i w. w * al ! i"])
    have "?gd x al ! i = (if al ! i \<noteq> 0 then x ! i / al ! i else 0)"
      using i lx lal
      by (simp add: parallelFor_nth [where f = "\<lambda>i w. if al ! i \<noteq> 0 then w / al ! i else 0"])
    with e xi have "mData (cs2 ! t) ! i = (if al ! i \<noteq> 0 then (v ! i * al ! i) / al ! i else 0)"
      by (simp only: x_def v_def al_def)
    then show ?thesis
      by (simp add: d2_def v_def al_def)
  qed
  have others: "channels d2 ! k = ?cs ! k" if k: "k < length ?cs" and nt: "k \<notin> fst ` set ?ts" for k
  proof -
    from nt have mk: "map_of ?ts k = None" by (simp add: map_of_eq_None_iff)
    from v2 k l1 mk have "cs2 ! k = cs1 ! k" by simp
    also from v1 k mk have "\<dots> = ?cs ! k" by simp
    finally show ?thesis by (simp add: d2_def)
  qed
  from m u same len shape targets others show ?thesis
    by (intro exI [of _ d1] exI [of _ d2]) auto
qed

lemma alpha_round_trip_example:
  "\<exists>d1 d2.
     multiplyAlpha (rawImage [constChannel ''R'' 2 1 (3::real),
                              \<lparr>mName = ''A'', cols = 2, rows = 1, mData = [2, 0]\<rparr>] ['''']) = (None, d1) \<and>
     unmultiplyAlpha d1 = (None, d2) \<and>
     mData (channels d2 ! 0) ! 0 = (3 * 2) / 2 \<and>
     mData (channels d2 ! 0) ! 1 = 0 \<and>
     channels d2 ! 1 = \<lparr>mName = ''A'', cols = 2, rows = 1, mData = [2, 0]\<rparr>"
proof -
  let ?d = "rawImage [constChannel ''R'' 2 1 (3::real),
                      \<lparr>mName = ''A'', cols = 2, rows = 1, mData = [2, 0]\<rparr>] ['''']"
  have ts: "alphaOperation ?d = [(0, 1)]" by (simp add: eval_alpha)
  have h1: "\<not> hasPremultipliedAlpha ?d" by (simp add: rawImage_def)
  have h2: "\<forall>c\<in>set (channels ?d). count c = 2" by (simp add: rawImage_def constChannel_def count_def)
  have h3: "distinct (map fst (alphaOperation ?d))" unfolding ts by simp
  have h4: "set (map fst (alphaOperation ?d)) \<inter> set (map snd (alphaOperation ?d)) = {}"
    unfolding ts by simp
  from alpha_round_trip [OF h1 h2 h3 h4] obtain d1 d2 where
    m: "multiplyAlpha ?d = (None, d1)" and u: "unmultiplyAlpha d1 = (None, d2)"
    and t: "\<forall>p\<in>set (alphaOperation ?d). \<forall>i<2.
              mData (channels d2 ! fst p) ! i =
                (if mData (channels ?d ! snd p) ! i \<noteq> 0
                 then (mData (channels ?d ! fst p) ! i * mData (channels ?d ! snd p) ! i) /
                        mData (channels ?d ! snd p) ! i
                 else 0)"
    and o: "\<forall>k<length (channels ?d). k \<notin> fst ` set (alphaOperation ?d) \<longrightarrow>
              channels d2 ! k = channels ?d ! k"
    by blast
  have mem: "(0, 1) \<in> set (alphaOperation ?d)" unfolding ts by simp
  have c0: "mData (channels ?d ! 0) = [3, 3]" and c1: "mData (channels ?d ! 1) = [2, 0]"
    and c: "channels ?d ! 1 = \<lparr>mName = ''A'', cols = 2, rows = 1, mData = [2, 0]\<rparr>"
    and l: "length (channels ?d) = 2"
    by (simp_all add: rawImage_def constChannel_def numeral_2_eq_2)
  note t01 = t [rule_format, OF mem, unfolded fst_conv snd_conv c0 c1]
  from t01 [of 0] t01 [of 1]
  have "mData (channels d2 ! 0) ! 0 = (3 * 2) / 2" and "mData (channels d2 ! 0) ! 1 = 0"
    by simp_all
  moreover have "1 \<notin> fst ` set (alphaOperation ?d)" unfolding ts by simp
  with o l have "channels d2 ! 1 = channels ?d ! 1" by simp
  then have "channels d2 ! 1 = \<lparr>mName = ''A'', cols = 2, rows = 1, mData = [2, 0]\<rparr>"
    unfolding c .
  ultimately show ?thesis using m u by blast
qed

text \<open>
  C5: for every image that is not premultiplied, \<open>multiplyAlpha\<close> followed by
  \<open>unmultiplyAlpha\<close> restores every non-alpha channel wherever the alpha of its layer is
  not 0. The code does not: take the channels \<open>aR = 3\<close>, \<open>A = 1\<close> and \<open>a.A = 0\<close> (one pixel
  each; all values and results below are exact in binary floating point) with the layers
  derived from their names, the root layer and \<open>a\<close>. \<open>aR\<close> is a channel of the root layer,
  whose alpha \<open>A\<close> is 1, so the round trip is to give back 3. The comment in
  \<^verbatim>\<open>channelsInLayer\<close> says that a channel of the layer is found when its name starts with
  the layer name and no other dot follows the end of the layer name; the code skips the
  character after the layer name without comparing it with the dot. So \<open>aR\<close> is returned
  for layer \<open>a\<close> as well, is scaled by \<open>a.A = 0\<close> too, and comes back as 0, in whichever
  order the two calls on \<open>aR\<close> run (the last two equations run them in the other order).
\<close>

theorem alpha_round_trip_fails_on_prefix_layer:
  "\<not> hasPremultipliedAlpha
       (rawImage [constChannel ''aR'' 1 1 (3::real), constChannel ''A'' 1 1 1,
                  constChannel ''a.A'' 1 1 0] ['''', ''a'']) \<and>
   layerNames [constChannel ''aR'' 1 1 (3::real), constChannel ''A'' 1 1 1,
               constChannel ''a.A'' 1 1 0] = ['''', ''a''] \<and>
   channelsInLayer
       (rawImage [constChannel ''aR'' 1 1 (3::real), constChannel ''A'' 1 1 1,
                  constChannel ''a.A'' 1 1 0] ['''', ''a'']) '''' = [''aR'', ''A''] \<and>
   channelsInLayer
       (rawImage [constChannel ''aR'' 1 1 (3::real), constChannel ''A'' 1 1 1,
                  constChannel ''a.A'' 1 1 0] ['''', ''a'']) ''a'' = [''aR'', ''a.A''] \<and>
   alphaOperation
       (rawImage [constChannel ''aR'' 1 1 (3::real), constChannel ''A'' 1 1 1,
                  constChannel ''a.A'' 1 1 0] ['''', ''a'']) = [(0, 1), (0, 2)] \<and>
   multiplyAlpha
       (rawImage [constChannel ''aR'' 1 1 (3::real), constChannel ''A'' 1 1 1,
                  constChannel ''a.A'' 1 1 0] ['''', ''a'']) =
     (None, (rawImage [constChannel ''aR'' 1 1 0, constChannel ''A'' 1 1 1,
                       constChannel ''a.A'' 1 1 0] ['''', ''a''])\<lparr>hasPremultipliedAlpha := True\<rparr>) \<and>
   unmultiplyAlpha
       ((rawImage [constChannel ''aR'' 1 1 (0::real), constChannel ''A'' 1 1 1,
                   constChannel ''a.A'' 1 1 0] ['''', ''a''])\<lparr>hasPremultipliedAlpha := True\<rparr>) =
     (None, rawImage [constChannel ''aR'' 1 1 0, constChannel ''A'' 1 1 1,
                      constChannel ''a.A'' 1 1 0] ['''', ''a'']) \<and>
   runTasks multiplyWith [(0, 2), (0, 1)]
       [constChannel ''aR'' 1 1 (3::real), constChannel ''A'' 1 1 1, constChannel ''a.A'' 1 1 0] =
     (None, [constChannel ''aR'' 1 1 0, constChannel ''A'' 1 1 1, constChannel ''a.A'' 1 1 0]) \<and>
   runTasks divideBy [(0, 2), (0, 1)]
       [constChannel ''aR'' 1 1 (0::real), constChannel ''A'' 1 1 1, constChannel ''a.A'' 1 1 0] =
     (None, [constChannel ''aR'' 1 1 0, constChannel ''A'' 1 1 1, constChannel ''a.A'' 1 1 0])"
  by code_simp

end
